theory Spec2Isabelle
  imports Main
begin

section \<open>Values\<close>

text \<open>
  The library is written against JavaScript's untyped values (\<^verbatim>\<open>any\<close>). It looks at a value
  in few ways, and the model keeps what it looks at.

  \<^item> \<open>jsprim\<close>: \<^verbatim>\<open>undefined\<close>, \<^verbatim>\<open>null\<close>, the booleans and the strings.
  \<^item> \<open>jsvalue\<close>: what a step or a callback can throw (or reject with). The library tests
    such a value with \<^verbatim>\<open>instanceof Error\<close>, reads the \<^verbatim>\<open>message\<close> of an error, applies
    \<^verbatim>\<open>String()\<close> to anything else, and stores the value itself. So a thrown value is a
    primitive, or an \<^verbatim>\<open>Error\<close> with its message (a string, as the type of \<^verbatim>\<open>Error\<close> declares
    it), or \<open>Other i c\<close>: any other value (a number,
    a symbol, a function, an object that is not an \<^verbatim>\<open>Error\<close>), where \<open>i\<close> names the value and
    \<open>c\<close> is what \<^verbatim>\<open>String()\<close> does on it: \<open>Inr s\<close> when the conversion gives the string \<open>s\<close>
    (\<^verbatim>\<open>"[object Object]"\<close> for an ordinary object, \<^verbatim>\<open>"1.5"\<close>, \<^verbatim>\<open>"1e+21"\<close>), \<open>Inl x\<close> when the
    conversion throws \<open>x\<close> (a \<^verbatim>\<open>TypeError\<close> for \<^verbatim>\<open>Object.create(null)\<close>, or whatever the
    value's own \<^verbatim>\<open>toString\<close> throws). The conversion is taken to have no other effect.
  \<^item> \<open>jsdata\<close>: what is stored in a context and in the records it refers to (input,
    result, metadata properties): a primitive, an integer-valued number (the clock
    readings and their differences), or a reference to a record in the heap. A record
    holds its own properties; the order of enumeration is not modelled.
\<close>

datatype jsprim = JSUndefined | JSNull | JSBool bool | JSString string

datatype jsvalue = Prim jsprim | Error string | Other nat "jsvalue + string"

type_synonym addr = nat

datatype jsdata = Data jsprim | Number int | Ref addr

type_synonym jsobject = "string \<rightharpoonup> jsdata"

text \<open>\<^verbatim>\<open>String(v)\<close> on a primitive of \<open>jsprim\<close>.\<close>

fun js_String :: "jsprim \<Rightarrow> string" where
  "js_String JSUndefined = ''undefined''"
| "js_String JSNull = ''null''"
| "js_String (JSBool b) = (if b then ''true'' else ''false'')"
| "js_String (JSString s) = s"

text \<open>Truthiness of a stored value (\<^verbatim>\<open>!v\<close> is its negation); every object is truthy.\<close>

fun truthy :: "jsdata \<Rightarrow> bool" where
  "truthy (Data JSUndefined) = False"
| "truthy (Data JSNull) = False"
| "truthy (Data (JSBool b)) = b"
| "truthy (Data (JSString s)) = (s \<noteq> [])"
| "truthy (Number n) = (n \<noteq> 0)"
| "truthy (Ref a) = True"

text \<open>
  Reading a property of a record: its own property, or \<^verbatim>\<open>undefined\<close>. (The records of
  this model inherit from \<^verbatim>\<open>Object.prototype\<close> only, and the library reads no property by
  a name that \<^verbatim>\<open>Object.prototype\<close> has.)
\<close>

definition get_property :: "jsobject \<Rightarrow> string \<Rightarrow> jsdata" where
  "get_property obj k = (case obj k of None \<Rightarrow> Data JSUndefined | Some v \<Rightarrow> v)"

section \<open>Completions: a call returns or throws\<close>

text \<open>
  Every call of the source either completes normally with a value or throws (an
  \<^verbatim>\<open>async\<close> function: resolves or rejects; each call is awaited, so a run is one
  sequential thread). A computation is a function from the state to a completion and the
  state it leaves behind. The steps and callbacks that users supply are such functions:
  they are taken to settle. The engine has no timeout, and its own loops are over the
  finite lists of steps and observers.
\<close>

datatype 'a completion = Normal 'a | Throw jsvalue

type_synonym ('a, 's) js = "'s \<Rightarrow> 'a completion \<times> 's"

definition js_return :: "'a \<Rightarrow> ('a, 's) js" where
  "js_return a = (\<lambda>s. (Normal a, s))"

definition js_bind :: "('a, 's) js \<Rightarrow> ('a \<Rightarrow> ('b, 's) js) \<Rightarrow> ('b, 's) js" where
  "js_bind m f = (\<lambda>s. case m s of (Normal a, s') \<Rightarrow> f a s' | (Throw e, s') \<Rightarrow> (Throw e, s'))"

text \<open>\<^verbatim>\<open>try { body } catch (error) { handler }\<close>\<close>

definition js_try_catch :: "('a, 's) js \<Rightarrow> (jsvalue \<Rightarrow> ('a, 's) js) \<Rightarrow> ('a, 's) js" where
  "js_try_catch body handler =
     (\<lambda>s. case body s of (Normal a, s') \<Rightarrow> (Normal a, s') | (Throw e, s') \<Rightarrow> handler e s')"

section \<open>WorkflowContext\<close>

record workflow_error =
  step :: string
  message :: string
  details :: jsvalue
  timestamp :: nat

record workflow_context_options =
  workflowId_opt :: "string option"
  workflowName_opt :: string
  input_opt :: jsdata
  result_opt :: jsdata
  metadata_opt :: "addr option"

text \<open>
  The context object. An optional field that is absent reads \<^verbatim>\<open>undefined\<close>
  (\<open>Data JSUndefined\<close> for \<open>input\<close> and \<open>result\<close>, \<open>None\<close> for the others). The constructor
  stores the caller's values themselves, not copies: \<open>metadata\<close> is the address of a record
  in the heap, and \<open>input\<close> and \<open>result\<close> are references (\<open>Ref\<close>) when they are objects.
\<close>

record workflow_context =
  workflowId :: string
  workflowName :: string
  input :: jsdata
  result :: jsdata
  errors :: "workflow_error list"
  metadata :: addr
  currentStepName :: "string option"
  startTime :: nat
  endTime :: "nat option"

text \<open>
  The state that the code of a run works on: the run's context object \<open>ctx\<close>, the heap of
  records, the system clock \<open>now\<close> in milliseconds (read by \<^verbatim>\<open>new Date()\<close> and
  \<^verbatim>\<open>Date.now()\<close>), the generator behind \<^verbatim>\<open>uuidv4()\<close> (a package outside this repository:
  the \<open>uuidCount\<close>-th call returns \<open>uuidGen uuidCount\<close>) and \<open>ext\<close>, whatever else the user's
  steps and observers keep (closures, private fields).
\<close>

record 'x world =
  ctx :: workflow_context
  heap :: "jsobject list"
  now :: nat
  uuidGen :: "nat \<Rightarrow> string"
  uuidCount :: nat
  ext :: 'x

definition uuidv4 :: "'x world \<Rightarrow> string \<times> 'x world" where
  "uuidv4 w = (uuidGen w (uuidCount w), w\<lparr>uuidCount := Suc (uuidCount w)\<rparr>)"

text \<open>The object literal \<^verbatim>\<open>{}\<close>: a new empty record at an address not in use.\<close>

definition new_object :: "'x world \<Rightarrow> addr \<times> 'x world" where
  "new_object w = (length (heap w), w\<lparr>heap := heap w @ [Map.empty]\<rparr>)"

definition heap_get :: "'x world \<Rightarrow> addr \<Rightarrow> jsobject option" where
  "heap_get w a = (if a < length (heap w) then Some (heap w ! a) else None)"

definition heap_set :: "addr \<Rightarrow> jsobject \<Rightarrow> 'x world \<Rightarrow> 'x world" where
  "heap_set a obj w = w\<lparr>heap := (heap w)[a := obj]\<rparr>"

text \<open>
  The constructor. The field initialisers run first (\<^verbatim>\<open>errors = []\<close>, \<^verbatim>\<open>metadata = {}\<close>), then
  the body: \<^verbatim>\<open>options.workflowId ?? uuidv4()\<close>, \<^verbatim>\<open>this.input = options.input\<close>,
  \<^verbatim>\<open>this.result = options.result\<close>, \<^verbatim>\<open>options.metadata ?? {}\<close>, \<^verbatim>\<open>startTime = new Date()\<close>.
  The new object becomes the run's context.
\<close>

definition WorkflowContext :: "workflow_context_options \<Rightarrow> 'x world \<Rightarrow> 'x world" where
  "WorkflowContext opts w =
     (let (m0, w0) = new_object w;
          (wid, w1) = (case workflowId_opt opts of Some i \<Rightarrow> (i, w0) | None \<Rightarrow> uuidv4 w0);
          (m, w2) = (case metadata_opt opts of Some a \<Rightarrow> (a, w1) | None \<Rightarrow> new_object w1)
      in w2\<lparr>ctx := \<lparr>workflowId = wid, workflowName = workflowName_opt opts,
                     input = input_opt opts, result = result_opt opts, errors = [],
                     metadata = m, currentStepName = None, startTime = now w2,
                     endTime = None\<rparr>\<rparr>)"

text \<open>
  \<^verbatim>\<open>error instanceof Error ? error.message : String(error)\<close>: the message text, or the
  value that the conversion throws.
\<close>

fun error_message :: "jsvalue \<Rightarrow> jsvalue + string" where
  "error_message (Error m) = Inr m"
| "error_message (Prim p) = Inr (js_String p)"
| "error_message (Other i c) = c"

text \<open>
  \<^verbatim>\<open>addError\<close> builds the record, message first, and pushes it. When the conversion to a
  string throws, nothing is pushed and \<^verbatim>\<open>addError\<close> throws.
\<close>

definition addError :: "string \<Rightarrow> jsvalue \<Rightarrow> (unit, 'x world) js" where
  "addError stepName error =
     (\<lambda>w. case error_message error of
             Inl x \<Rightarrow> (Throw x, w)
           | Inr msg \<Rightarrow>
               (Normal (),
                w\<lparr>ctx := (ctx w)\<lparr>errors := errors (ctx w) @
                  [\<lparr>step = stepName, message = msg, details = error,
                    timestamp = now w\<rparr>]\<rparr>\<rparr>))"

text \<open>\<^verbatim>\<open>complete() { this.endTime = new Date(); }\<close>\<close>

definition complete :: "'x world \<Rightarrow> 'x world" where
  "complete w = w\<lparr>ctx := (ctx w)\<lparr>endTime := Some (now w)\<rparr>\<rparr>"

definition durationMs :: "workflow_context \<Rightarrow> int option" where
  "durationMs c = (case endTime c of None \<Rightarrow> None | Some e \<Rightarrow> Some (int e - int (startTime c)))"

definition successful :: "workflow_context \<Rightarrow> bool" where
  "successful c = (length (errors c) = 0)"

section \<open>Steps\<close>

text \<open>
  \<^verbatim>\<open>WorkflowStep\<close>: a name and \<^verbatim>\<open>execute(context)\<close>, which resolves or rejects and may change
  anything it can reach: the context (shared by reference), the heap, its own state.
\<close>

record 'x workflow_step =
  step_name :: string
  step_execute :: "(unit, 'x world) js"

text \<open>\<^verbatim>\<open>BasicStep.execute\<close> awaits the executor and passes its outcome on.\<close>

definition BasicStep :: "string \<Rightarrow> (unit, 'x world) js \<Rightarrow> 'x workflow_step" where
  "BasicStep name executor = \<lparr>step_name = name, step_execute = executor\<rparr>"

text \<open>
  \<^verbatim>\<open>ConditionalStep.execute\<close>: await the condition, then the true step, or the false step
  when there is one.
\<close>

definition ConditionalStep ::
  "string \<Rightarrow> (bool, 'x world) js \<Rightarrow> 'x workflow_step \<Rightarrow> 'x workflow_step option
     \<Rightarrow> 'x workflow_step" where
  "ConditionalStep name condition trueStep falseStep =
     \<lparr>step_name = name,
      step_execute = js_bind condition (\<lambda>result.
        if result then step_execute trueStep
        else (case falseStep of Some f \<Rightarrow> step_execute f | None \<Rightarrow> js_return ()))\<rparr>"

section \<open>Observers\<close>

text \<open>\<^verbatim>\<open>WorkflowObserver\<close>: five callbacks, each optional.\<close>

record 'x workflow_observer =
  onStepStart :: "(string \<Rightarrow> (unit, 'x world) js) option"
  onStepComplete :: "(string \<Rightarrow> (unit, 'x world) js) option"
  onStepError :: "(string \<Rightarrow> jsvalue \<Rightarrow> (unit, 'x world) js) option"
  onWorkflowComplete :: "(unit, 'x world) js option"
  onWorkflowStart :: "(unit, 'x world) js option"

text \<open>A lifecycle event: the \<^verbatim>\<open>eventName\<close> of \<^verbatim>\<open>notifyObservers\<close> with its arguments.\<close>

datatype event =
  OnStepStart string
| OnStepComplete string
| OnStepError string jsvalue
| OnWorkflowComplete
| OnWorkflowStart

fun eventName :: "event \<Rightarrow> string" where
  "eventName (OnStepStart n) = ''onStepStart''"
| "eventName (OnStepComplete n) = ''onStepComplete''"
| "eventName (OnStepError n e) = ''onStepError''"
| "eventName OnWorkflowComplete = ''onWorkflowComplete''"
| "eventName OnWorkflowStart = ''onWorkflowStart''"

text \<open>\<^verbatim>\<open>observer[eventName]\<close>, applied to the arguments when it is a function.\<close>

fun callback_of :: "'x workflow_observer \<Rightarrow> event \<Rightarrow> (unit, 'x world) js option" where
  "callback_of ob (OnStepStart n) = map_option (\<lambda>f. f n) (onStepStart ob)"
| "callback_of ob (OnStepComplete n) = map_option (\<lambda>f. f n) (onStepComplete ob)"
| "callback_of ob (OnStepError n e) = map_option (\<lambda>f. f n e) (onStepError ob)"
| "callback_of ob OnWorkflowComplete = onWorkflowComplete ob"
| "callback_of ob OnWorkflowStart = onWorkflowStart ob"

section \<open>WorkflowEngine\<close>

text \<open>
  What the engine did, in order: \<open>Notified i ev\<close> when it called the callback for \<open>ev\<close> of
  the \<open>i\<close>-th registered observer, \<open>Executed n r\<close> when it called \<^verbatim>\<open>execute\<close> of the step
  named \<open>n\<close>, which resolved (\<open>None\<close>) or rejected with \<open>e\<close> (\<open>Some e\<close>).
\<close>

datatype call = Notified nat event | Executed string "jsvalue option"

text \<open>
  The state of the engine's code: the \<open>world\<close> that steps and observers see, what was
  written with \<^verbatim>\<open>console.error\<close> (message and error; user code cannot read it back), and
  the record of the \<open>calls\<close> made.
\<close>

record 'x run =
  world :: "'x world"
  console :: "(string \<times> jsvalue) list"
  calls :: "call list"

record workflow_engine_options = workflow_context_options +
  continueOnError :: "bool option"
  maxConcurrency :: "int option"

record 'x workflow_engine =
  steps :: "'x workflow_step list"
  observers :: "'x workflow_observer list"
  options :: workflow_engine_options

text \<open>The constructor: \<^verbatim>\<open>continueOnError ?? false\<close>, \<^verbatim>\<open>maxConcurrency ?? 1\<close>.\<close>

definition WorkflowEngine :: "workflow_engine_options \<Rightarrow> 'x workflow_engine" where
  "WorkflowEngine opts =
     \<lparr>steps = [], observers = [],
      options = opts\<lparr>continueOnError :=
                        Some (case continueOnError opts of Some b \<Rightarrow> b | None \<Rightarrow> False),
                     maxConcurrency :=
                        Some (case maxConcurrency opts of Some n \<Rightarrow> n | None \<Rightarrow> 1)\<rparr>\<rparr>"

definition addStep :: "'x workflow_step \<Rightarrow> 'x workflow_engine \<Rightarrow> 'x workflow_engine" where
  "addStep s eng = eng\<lparr>steps := steps eng @ [s]\<rparr>"

definition addSteps :: "'x workflow_step list \<Rightarrow> 'x workflow_engine \<Rightarrow> 'x workflow_engine" where
  "addSteps ss eng = eng\<lparr>steps := steps eng @ ss\<rparr>"

definition addObserver ::
  "'x workflow_observer \<Rightarrow> 'x workflow_engine \<Rightarrow> 'x workflow_engine" where
  "addObserver ob eng = eng\<lparr>observers := observers eng @ [ob]\<rparr>"

definition addObservers ::
  "'x workflow_observer list \<Rightarrow> 'x workflow_engine \<Rightarrow> 'x workflow_engine" where
  "addObservers obs eng = eng\<lparr>observers := observers eng @ obs\<rparr>"

text \<open>
  The engine's own code on the world: an update that cannot throw, and a call of a method
  of the context.
\<close>

definition lift_world :: "('x world \<Rightarrow> 'x world) \<Rightarrow> (unit, 'x run) js" where
  "lift_world f = (\<lambda>r. (Normal (), r\<lparr>world := f (world r)\<rparr>))"

definition lift_js :: "('a, 'x world) js \<Rightarrow> ('a, 'x run) js" where
  "lift_js m = (\<lambda>r. case m (world r) of (res, w') \<Rightarrow> (res, r\<lparr>world := w'\<rparr>))"

text \<open>\<^verbatim>\<open>await (method as Function).apply(observer, args)\<close>\<close>

definition call_observer :: "nat \<Rightarrow> event \<Rightarrow> (unit, 'x world) js \<Rightarrow> (unit, 'x run) js" where
  "call_observer i ev m =
     (\<lambda>r. case m (world r) of
             (res, w') \<Rightarrow> (res, r\<lparr>world := w', calls := calls r @ [Notified i ev]\<rparr>))"

definition console_error :: "string \<Rightarrow> jsvalue \<Rightarrow> (unit, 'x run) js" where
  "console_error msg e = (\<lambda>r. (Normal (), r\<lparr>console := console r @ [(msg, e)]\<rparr>))"

text \<open>
  \<^verbatim>\<open>notifyObservers\<close>: the loop over the observers, from the \<open>i\<close>-th on. A callback that
  throws is caught and logged, and the loop goes on.
\<close>

fun notifyFrom ::
  "nat \<Rightarrow> event \<Rightarrow> 'x workflow_observer list \<Rightarrow> (unit, 'x run) js" where
  "notifyFrom i ev [] r = (Normal (), r)"
| "notifyFrom i ev (observer # rest) r =
     (case callback_of observer ev of
        None \<Rightarrow> notifyFrom (Suc i) ev rest r
      | Some m \<Rightarrow>
          (case js_try_catch (call_observer i ev m)
                  (\<lambda>error. console_error (''Error in workflow observer ('' @ eventName ev @ '')'')
                              error) r of
             (Normal u, r') \<Rightarrow> notifyFrom (Suc i) ev rest r'
           | (Throw e, r') \<Rightarrow> (Throw e, r')))"

definition notifyObservers :: "event \<Rightarrow> 'x workflow_observer list \<Rightarrow> (unit, 'x run) js" where
  "notifyObservers ev obs = notifyFrom 0 ev obs"

definition set_currentStepName :: "string \<Rightarrow> 'x world \<Rightarrow> 'x world" where
  "set_currentStepName n w = w\<lparr>ctx := (ctx w)\<lparr>currentStepName := Some n\<rparr>\<rparr>"

text \<open>\<^verbatim>\<open>await step.execute(context)\<close>\<close>

definition call_step :: "'x workflow_step \<Rightarrow> (unit, 'x run) js" where
  "call_step s =
     (\<lambda>r. case step_execute s (world r) of
             (res, w') \<Rightarrow>
               (res, r\<lparr>world := w',
                       calls := calls r @
                         [Executed (step_name s)
                            (case res of Normal u \<Rightarrow> None | Throw e \<Rightarrow> Some e)]\<rparr>))"

text \<open>
  One turn of the loop over the steps: it ends by going on to the next step or by
  \<^verbatim>\<open>break\<close>. The \<^verbatim>\<open>try\<close> block holds the two notifications and the step; the
  \<^verbatim>\<open>catch\<close> block records the error, notifies, and breaks unless \<^verbatim>\<open>continueOnError\<close>.
  Nothing catches what the \<^verbatim>\<open>catch\<close> block itself throws.
\<close>

datatype loop_control = Continue | Break

definition loop_body :: "'x workflow_engine \<Rightarrow> 'x workflow_step \<Rightarrow> (loop_control, 'x run) js" where
  "loop_body eng s =
     js_bind (lift_world (set_currentStepName (step_name s))) (\<lambda>u.
     js_try_catch
       (js_bind (notifyObservers (OnStepStart (step_name s)) (observers eng)) (\<lambda>u.
        js_bind (call_step s) (\<lambda>u.
        js_bind (notifyObservers (OnStepComplete (step_name s)) (observers eng)) (\<lambda>u.
        js_return Continue))))
       (\<lambda>error.
        js_bind (lift_js (addError (step_name s) error)) (\<lambda>u.
        js_bind (notifyObservers (OnStepError (step_name s) error) (observers eng)) (\<lambda>u.
        js_return (if continueOnError (options eng) \<noteq> Some True then Break else Continue)))))"

fun for_steps :: "'x workflow_engine \<Rightarrow> 'x workflow_step list \<Rightarrow> (unit, 'x run) js" where
  "for_steps eng [] r = (Normal (), r)"
| "for_steps eng (s # rest) r =
     (case loop_body eng s r of
        (Normal Continue, r') \<Rightarrow> for_steps eng rest r'
      | (Normal Break, r') \<Rightarrow> (Normal (), r')
      | (Throw e, r') \<Rightarrow> (Throw e, r'))"

text \<open>
  \<^verbatim>\<open>execute(input)\<close>: build the context from \<^verbatim>\<open>{...this.options, input}\<close>, notify
  workflow-start, run the steps, complete, notify workflow-complete, return the context.
\<close>

definition context_options :: "'x workflow_engine \<Rightarrow> jsdata \<Rightarrow> workflow_context_options" where
  "context_options eng inp =
     (workflow_context_options.truncate (options eng))\<lparr>input_opt := inp\<rparr>"

definition execute :: "'x workflow_engine \<Rightarrow> jsdata \<Rightarrow> (workflow_context, 'x run) js" where
  "execute eng inp =
     js_bind (lift_world (WorkflowContext (context_options eng inp))) (\<lambda>u.
     js_bind (notifyObservers OnWorkflowStart (observers eng)) (\<lambda>u.
     js_bind (for_steps eng (steps eng)) (\<lambda>u.
     js_bind (lift_world complete) (\<lambda>u.
     js_bind (notifyObservers OnWorkflowComplete (observers eng)) (\<lambda>u.
     (\<lambda>r. (Normal (ctx (world r)), r)))))))"

section \<open>PerformanceObserver\<close>

text \<open>
  The observer's private field \<^verbatim>\<open>stepStartTimes\<close> is the \<open>ext\<close> part of the world: a record
  from keys to clock readings. The key of a step in a run is the template string
  \<^verbatim>\<open>`${context.workflowId}:${stepName}`\<close>.
\<close>

type_synonym stepStartTimes = "string \<rightharpoonup> nat"

definition step_key :: "workflow_context \<Rightarrow> string \<Rightarrow> string" where
  "step_key c stepName = workflowId c @ '':'' @ stepName"

text \<open>
  The \<^verbatim>\<open>TypeError\<close> that JavaScript throws on a property access that is not possible
  (its message depends on the runtime).
\<close>

definition TypeError :: jsvalue where
  "TypeError = Error ''TypeError''"

definition perf_onStepStart :: "string \<Rightarrow> (unit, stepStartTimes world) js" where
  "perf_onStepStart stepName =
     (\<lambda>w. (Normal (), w\<lparr>ext := (ext w)(step_key (ctx w) stepName \<mapsto> now w)\<rparr>))"

text \<open>
  \<^verbatim>\<open>recordStepDuration\<close>: create \<^verbatim>\<open>metadata.performance = { steps: {} }\<close> when that property
  is falsy (the inner literal is built first), then assign
  \<^verbatim>\<open>metadata.performance.steps[stepName] = duration\<close>. The assignment throws unless
  \<^verbatim>\<open>performance\<close> and its \<^verbatim>\<open>steps\<close> are objects; under the name \<^verbatim>\<open>__proto__\<close> it reaches the
  setter of \<^verbatim>\<open>Object.prototype\<close>, which ignores a number. A reference to no record of the
  heap does not occur in JavaScript; the model throws there.
\<close>

definition recordStepDuration :: "string \<Rightarrow> int \<Rightarrow> (unit, 'x world) js" where
  "recordStepDuration stepName duration =
     (\<lambda>w. case heap_get w (metadata (ctx w)) of
             None \<Rightarrow> (Throw TypeError, w)
           | Some md \<Rightarrow>
               (let w1 = (if truthy (get_property md ''performance'') then w
                          else (let (s, wa) = new_object w;
                                    (p, wb) = new_object wa
                                in heap_set (metadata (ctx w)) (md(''performance'' \<mapsto> Ref p))
                                     (heap_set p (Map.empty(''steps'' \<mapsto> Ref s)) wb)))
                in case heap_get w1 (metadata (ctx w1)) of
                     None \<Rightarrow> (Throw TypeError, w1)
                   | Some md1 \<Rightarrow>
                       (case get_property md1 ''performance'' of
                          Ref p \<Rightarrow>
                            (case heap_get w1 p of
                               None \<Rightarrow> (Throw TypeError, w1)
                             | Some perf \<Rightarrow>
                                 (case get_property perf ''steps'' of
                                    Ref s \<Rightarrow>
                                      (case heap_get w1 s of
                                         None \<Rightarrow> (Throw TypeError, w1)
                                       | Some durations \<Rightarrow>
                                           (Normal (),
                                            if stepName = ''__proto__'' then w1
                                            else heap_set s
                                                   (durations(stepName \<mapsto> Number duration)) w1))
                                  | _ \<Rightarrow> (Throw TypeError, w1)))
                        | _ \<Rightarrow> (Throw TypeError, w1))))"

text \<open>
  \<^verbatim>\<open>onStepComplete\<close>: \<^verbatim>\<open>if (!startTime) return;\<close> leaves when no start time is stored under
  the key (or the stored reading is \<open>0\<close>); otherwise the duration is recorded and the key
  deleted.
\<close>

definition perf_onStepComplete :: "string \<Rightarrow> (unit, stepStartTimes world) js" where
  "perf_onStepComplete stepName =
     (\<lambda>w. case ext w (step_key (ctx w) stepName) of
             None \<Rightarrow> (Normal (), w)
           | Some t0 \<Rightarrow>
               if t0 = 0 then (Normal (), w)
               else js_bind (recordStepDuration stepName (int (now w) - int t0))
                      (\<lambda>u w'. (Normal (),
                         w'\<lparr>ext := (ext w')(step_key (ctx w') stepName := None)\<rparr>)) w)"

definition perf_onStepError :: "string \<Rightarrow> jsvalue \<Rightarrow> (unit, stepStartTimes world) js" where
  "perf_onStepError stepName error = perf_onStepComplete stepName"

section \<open>Notions used to state the properties\<close>

text \<open>
  The calls that \<^verbatim>\<open>notifyObservers\<close> makes for an event: one per observer that has a callback
  for it, in registration order (\<open>i\<close> is the position of the first observer of the list).
\<close>

fun notified :: "nat \<Rightarrow> event \<Rightarrow> 'x workflow_observer list \<Rightarrow> call list" where
  "notified i ev [] = []"
| "notified i ev (ob # rest) =
     (case callback_of ob ev of None \<Rightarrow> [] | Some m \<Rightarrow> [Notified i ev]) @ notified (Suc i) ev rest"

text \<open>
  What notifying an event does to the world, said without the engine: each observer that
  has a callback for the event has it applied, in registration order, to the world the
  one before left; what a callback did remains whether it returned or threw.
\<close>

fun notify_world :: "event \<Rightarrow> 'x workflow_observer list \<Rightarrow> 'x world \<Rightarrow> 'x world" where
  "notify_world ev [] w = w"
| "notify_world ev (ob # rest) w =
     notify_world ev rest (case callback_of ob ev of None \<Rightarrow> w | Some m \<Rightarrow> snd (m w))"

text \<open>
  The worlds of a run as section 4.4 of the specification words it: the context is built
  and workflow-start notified; before a step its name is made current and step-start
  notified; after a step that succeeded step-complete is notified; after a step that
  failed the error is recorded and step-error notified; at the end the context is
  completed and workflow-complete notified.
\<close>

definition started_world :: "'x workflow_engine \<Rightarrow> jsdata \<Rightarrow> 'x world \<Rightarrow> 'x world" where
  "started_world eng inp w =
     notify_world OnWorkflowStart (observers eng) (WorkflowContext (context_options eng inp) w)"

definition step_start_world :: "'x workflow_engine \<Rightarrow> 'x workflow_step \<Rightarrow> 'x world \<Rightarrow> 'x world" where
  "step_start_world eng s w =
     notify_world (OnStepStart (step_name s)) (observers eng)
       (set_currentStepName (step_name s) w)"

definition step_complete_world ::
  "'x workflow_engine \<Rightarrow> 'x workflow_step \<Rightarrow> 'x world \<Rightarrow> 'x world" where
  "step_complete_world eng s w = notify_world (OnStepComplete (step_name s)) (observers eng) w"

definition step_error_world ::
  "'x workflow_engine \<Rightarrow> 'x workflow_step \<Rightarrow> jsvalue \<Rightarrow> 'x world \<Rightarrow> 'x world" where
  "step_error_world eng s e w =
     notify_world (OnStepError (step_name s) e) (observers eng)
       (snd (addError (step_name s) e w))"

definition finished_world :: "'x workflow_engine \<Rightarrow> 'x world \<Rightarrow> 'x world" where
  "finished_world eng w = notify_world OnWorkflowComplete (observers eng) (complete w)"




definition conversion_error :: "'x workflow_engine \<Rightarrow> jsvalue \<Rightarrow> bool" where
  "conversion_error eng x =
     (\<exists>s \<in> set (steps eng). \<exists>w e. fst (step_execute s w) = Throw e \<and> error_message e = Inl x)"

text \<open>The state in which a step is executed: its name is current, step-start is notified.\<close>

definition before_step :: "'x workflow_engine \<Rightarrow> 'x workflow_step \<Rightarrow> 'x run \<Rightarrow> 'x run" where
  "before_step eng s r =
     snd (notifyObservers (OnStepStart (step_name s)) (observers eng)
            (r\<lparr>world := set_currentStepName (step_name s) (world r)\<rparr>))"

text \<open>The names of the steps executed, in order.\<close>

definition executed :: "call list \<Rightarrow> string list" where
  "executed cs = concat (map (\<lambda>c. case c of Executed n res \<Rightarrow> [n] | _ \<Rightarrow> []) cs)"

text \<open>
  The context is shared by reference, so nothing stops user code from writing any of its
  fields. \<open>keeps fld f\<close> says that \<open>f\<close> leaves the field \<open>fld\<close> of the context as it found it;
  the data model reserves \<open>errors\<close> and \<open>currentStepName\<close> to the engine.
\<close>

definition keeps :: "(workflow_context \<Rightarrow> 'a) \<Rightarrow> ('b, 'x world) js \<Rightarrow> bool" where
  "keeps fld f = (\<forall>w. fld (ctx (snd (f w))) = fld (ctx w))"

definition observer_keeps :: "(workflow_context \<Rightarrow> 'a) \<Rightarrow> 'x workflow_observer \<Rightarrow> bool" where
  "observer_keeps fld ob =
     ((case onStepStart ob of None \<Rightarrow> True | Some f \<Rightarrow> \<forall>n. keeps fld (f n)) \<and>
      (case onStepComplete ob of None \<Rightarrow> True | Some f \<Rightarrow> \<forall>n. keeps fld (f n)) \<and>
      (case onStepError ob of None \<Rightarrow> True | Some f \<Rightarrow> \<forall>n e. keeps fld (f n e)) \<and>
      (case onWorkflowComplete ob of None \<Rightarrow> True | Some f \<Rightarrow> keeps fld f) \<and>
      (case onWorkflowStart ob of None \<Rightarrow> True | Some f \<Rightarrow> keeps fld f))"

definition user_code_keeps :: "(workflow_context \<Rightarrow> 'a) \<Rightarrow> 'x workflow_engine \<Rightarrow> bool" where
  "user_code_keeps fld eng =
     ((\<forall>s \<in> set (steps eng). keeps fld (step_execute s)) \<and>
      (\<forall>ob \<in> set (observers eng). observer_keeps fld ob))"

text \<open>
  The same callback, with the same effects, but completing normally where the original
  throws; and the observer whose callbacks are all made so.
\<close>

definition succeeding :: "(unit, 's) js \<Rightarrow> (unit, 's) js" where
  "succeeding m = (\<lambda>s. (Normal (), snd (m s)))"

definition succeeding_observer :: "'x workflow_observer \<Rightarrow> 'x workflow_observer" where
  "succeeding_observer ob =
     \<lparr>onStepStart = map_option (\<lambda>f n. succeeding (f n)) (onStepStart ob),
      onStepComplete = map_option (\<lambda>f n. succeeding (f n)) (onStepComplete ob),
      onStepError = map_option (\<lambda>f n e. succeeding (f n e)) (onStepError ob),
      onWorkflowComplete = map_option succeeding (onWorkflowComplete ob),
      onWorkflowStart = map_option succeeding (onWorkflowStart ob)\<rparr>"

text \<open>
  The state of a run when the loop over the steps begins (the context is built and
  workflow-start is notified), and the state when \<open>execute\<close> returns, given the state \<open>r\<close>
  in which the loop ended (the context is completed and workflow-complete is notified).
\<close>

definition started :: "'x workflow_engine \<Rightarrow> jsdata \<Rightarrow> 'x run \<Rightarrow> 'x run" where
  "started eng inp r =
     snd (notifyObservers OnWorkflowStart (observers eng)
            (r\<lparr>world := WorkflowContext (context_options eng inp) (world r)\<rparr>))"

definition finished :: "'x workflow_engine \<Rightarrow> 'x run \<Rightarrow> 'x run" where
  "finished eng r =
     snd (notifyObservers OnWorkflowComplete (observers eng) (r\<lparr>world := complete (world r)\<rparr>))"

text \<open>The world that a run of the engine leaves when \<open>execute\<close> settles.\<close>

definition world_after_run :: "'x workflow_engine \<Rightarrow> jsdata \<Rightarrow> 'x run \<Rightarrow> 'x world" where
  "world_after_run eng inp r = world (snd (execute eng inp r))"

section \<open>Concrete runs\<close>

text \<open>
  Steps and observers that leave a trace in the world: each appends a line to \<open>ext\<close>, so
  that the world of a run shows which of them ran, and in which order.
\<close>

definition log_line :: "string \<Rightarrow> string list world \<Rightarrow> string list world" where
  "log_line l w = w\<lparr>ext := ext w @ [l]\<rparr>"

definition ctx0 :: workflow_context where
  "ctx0 = \<lparr>workflowId = ''run-1'', workflowName = ''test-workflow'',
           input = Data JSUndefined, result = Data JSUndefined, errors = [], metadata = 0,
           currentStepName = None, startTime = 0, endTime = None\<rparr>"

definition world0 :: "string list world" where
  "world0 = \<lparr>ctx = ctx0, heap = [Map.empty, Map.empty], now = 5,
             uuidGen = (\<lambda>n. ''generated''), uuidCount = 0, ext = []\<rparr>"

definition run0 :: "string list run" where
  "run0 = \<lparr>world = world0, console = [], calls = []\<rparr>"

definition options0 :: workflow_engine_options where
  "options0 = \<lparr>workflowId_opt = None, workflowName_opt = ''test-workflow'',
               input_opt = Data JSUndefined, result_opt = Data JSUndefined,
               metadata_opt = None, continueOnError = None, maxConcurrency = None\<rparr>"

definition step_ok :: "string \<Rightarrow> string list workflow_step" where
  "step_ok n = BasicStep n (\<lambda>w. (Normal (), log_line (''run '' @ n) w))"

text \<open>A step that fails with the value \<open>v\<close>.\<close>

definition step_throw :: "string \<Rightarrow> jsvalue \<Rightarrow> string list workflow_step" where
  "step_throw n v = BasicStep n (\<lambda>w. (Throw v, log_line (''run '' @ n) w))"


definition logging_observer :: "string list workflow_observer" where
  "logging_observer =
     \<lparr>onStepStart = Some (\<lambda>n w. (Normal (), log_line (''start '' @ n) w)),
      onStepComplete = Some (\<lambda>n w. (Normal (), log_line (''complete '' @ n) w)),
      onStepError = Some (\<lambda>n e w. (Normal (), log_line (''error '' @ n) w)),
      onWorkflowComplete = Some (\<lambda>w. (Normal (), log_line ''workflow complete'' w)),
      onWorkflowStart = Some (\<lambda>w. (Normal (), log_line ''workflow start'' w))\<rparr>"

text \<open>An observer whose callbacks all leave a line and then throw.\<close>

definition throwing_observer :: "string list workflow_observer" where
  "throwing_observer =
     \<lparr>onStepStart = Some (\<lambda>n w. (Throw (Prim (JSString ''observer failed'')), log_line ''!'' w)),
      onStepComplete =
        Some (\<lambda>n w. (Throw (Prim (JSString ''observer failed'')), log_line ''!'' w)),
      onStepError =
        Some (\<lambda>n e w. (Throw (Prim (JSString ''observer failed'')), log_line ''!'' w)),
      onWorkflowComplete =
        Some (\<lambda>w. (Throw (Prim (JSString ''observer failed'')), log_line ''!'' w)),
      onWorkflowStart =
        Some (\<lambda>w. (Throw (Prim (JSString ''observer failed'')), log_line ''!'' w))\<rparr>"

text \<open>
  The engine of the three-step scenario: steps \<open>A\<close>, \<open>B\<close>, \<open>C\<close> of which \<open>B\<close> fails with \<open>v\<close>,
  and two observers, the second of which throws in every callback.
\<close>

definition engine_abc :: "bool option \<Rightarrow> jsvalue \<Rightarrow> string list workflow_engine" where
  "engine_abc coe v =
     addObservers [logging_observer, throwing_observer]
       (addSteps [step_ok ''A'', step_throw ''B'' v, step_ok ''C'']
          (WorkflowEngine (options0\<lparr>continueOnError := coe\<rparr>)))"

text \<open>
  A branch step whose condition is true and whose true step fails; an engine configured
  with a metadata object (the record at address 0) and a result object (the record at
  address 1), with a step that writes a property of each,
  \<^verbatim>\<open>context.metadata.seen = true\<close> and \<^verbatim>\<open>context.result.count = 1\<close>; the state after a first
  run of that engine and the context that a second run builds.
\<close>

definition branch_step :: "string list workflow_step" where
  "branch_step =
     ConditionalStep ''branch'' (js_return True) (step_throw ''child'' (Error ''boom'')) None"

definition engine_branch :: "string list workflow_engine" where
  "engine_branch = addSteps [branch_step] (WorkflowEngine options0)"

definition set_property :: "jsdata \<Rightarrow> string \<Rightarrow> jsdata \<Rightarrow> (unit, 'x world) js" where
  "set_property target k v =
     (\<lambda>w. case target of
             Ref a \<Rightarrow>
               (case heap_get w a of
                  None \<Rightarrow> (Throw TypeError, w)
                | Some obj \<Rightarrow> (Normal (), heap_set a (obj(k \<mapsto> v)) w))
           | _ \<Rightarrow> (Throw TypeError, w))"

definition mark_step :: "string list workflow_step" where
  "mark_step =
     BasicStep ''mark''
       (\<lambda>w. js_bind (set_property (Ref (metadata (ctx w))) ''seen'' (Data (JSBool True)))
               (\<lambda>u w'. set_property (result (ctx w')) ''count'' (Number 1) w') w)"

definition engine_meta :: "string list workflow_engine" where
  "engine_meta =
     addStep mark_step
       (WorkflowEngine (options0\<lparr>metadata_opt := Some 0, result_opt := Ref 1\<rparr>))"

definition first_run :: "string list run" where
  "first_run = snd (execute engine_meta (Data JSNull) run0)"

definition second_context :: "string list world" where
  "second_context = WorkflowContext (context_options engine_meta (Data JSNull)) (world first_run)"

text \<open>
  Worlds of the duration observer. In the first a start time is stored for another step
  of the run. The second is the world of a run \<open>a\<close> after the start of its step \<open>b:c\<close>; the
  third is the world of a run \<open>a:b\<close> that the same observer watches, before any start of
  its step \<open>c\<close>.
\<close>

definition perf_world0 :: "stepStartTimes world" where
  "perf_world0 = \<lparr>ctx = ctx0, heap = [Map.empty, Map.empty], now = 5,
                  uuidGen = (\<lambda>n. ''generated''), uuidCount = 0,
                  ext = Map.empty(''run-1:other'' \<mapsto> 3)\<rparr>"

definition perf_world_a :: "stepStartTimes world" where
  "perf_world_a =
     snd (perf_onStepStart ''b:c''
            (perf_world0\<lparr>ctx := ctx0\<lparr>workflowId := ''a''\<rparr>, ext := Map.empty, now := 3\<rparr>))"

definition perf_world_ab :: "stepStartTimes world" where
  "perf_world_ab = perf_world_a\<lparr>ctx := ctx0\<lparr>workflowId := ''a:b'', metadata := 1\<rparr>, now := 8\<rparr>"

section \<open>The context's operations\<close>



text \<open>
  C5, as the claim states it, fails: \<open>complete\<close> assigns the end time without looking at
  it. Completed at instant 5 and again at instant 7, the context's end time is 7.
\<close>

theorem complete_twice_counterexample:
  "endTime (ctx (complete world0)) = Some 5 \<and>
   endTime (ctx (complete ((complete world0)\<lparr>now := 7\<rparr>))) = Some 7"
  by (simp add: complete_def world0_def)

text \<open>
  C5, amended. \<open>addError\<close> never changes the end time. \<open>complete\<close> sets it to the current
  instant whether or not it was set before: a second call, made when the clock reads \<open>t\<close>,
  leaves the end time at \<open>t\<close>.
\<close>

theorem complete_overwrites_endTime:
  "endTime (ctx (snd (addError stepName failure w))) = endTime (ctx w) \<and>
   endTime (ctx (complete w)) = Some (now w) \<and>
   endTime (ctx (complete ((complete w)\<lparr>now := t\<rparr>))) = Some t"
  by (simp add: complete_def addError_def split: sum.splits)

section \<open>The duration observer\<close>

text \<open>
  C10, as the claim states it, fails: the observer stores a start under the string
  \<open>workflowId:stepName\<close>, and two pairs can give the same string. After the only start
  recorded, that of step \<open>b:c\<close> in run \<open>a\<close>, the key \<open>a:b:c\<close> is stored. No start was recorded
  for step \<open>c\<close> of run \<open>a:b\<close>, yet \<open>onStepComplete\<close> for that pair finds the key: it writes
  the duration 5 for \<open>c\<close> into the metadata of run \<open>a:b\<close> (the record at address 1) and
  deletes the start time.
\<close>

theorem perf_key_collision_counterexample:
  "(''a'', ''b:c'') \<noteq> (''a:b'', ''c'') \<and>
   heap_get perf_world_ab 1 = Some Map.empty \<and>
   ext perf_world_ab ''a:b:c'' = Some 3 \<and>
   fst (perf_onStepComplete ''c'' perf_world_ab) = Normal () \<and>
   ext (snd (perf_onStepComplete ''c'' perf_world_ab)) ''a:b:c'' = None \<and>
   map_option (\<lambda>md. md ''performance'')
     (heap_get (snd (perf_onStepComplete ''c'' perf_world_ab)) 1) = Some (Some (Ref 3)) \<and>
   map_option (\<lambda>perf. perf ''steps'')
     (heap_get (snd (perf_onStepComplete ''c'' perf_world_ab)) 3) = Some (Some (Ref 2)) \<and>
   map_option (\<lambda>durations. durations ''c'')
     (heap_get (snd (perf_onStepComplete ''c'' perf_world_ab)) 2) = Some (Some (Number 5))"
  by (simp add: perf_world_ab_def perf_world_a_def perf_world0_def ctx0_def
      perf_onStepStart_def perf_onStepComplete_def recordStepDuration_def step_key_def
      js_bind_def heap_get_def heap_set_def new_object_def get_property_def Let_def)

text \<open>
  C10, amended. When the observer holds no start time under the key
  \<open>workflowId:stepName\<close> of the pair, \<open>onStepComplete\<close> returns and leaves the whole world
  as it was: the metadata in the heap, the context and the observer's start times.
  \<open>onStepError\<close>, which delegates to it, does the same.
\<close>

theorem perf_onStepComplete_without_start:
  assumes "ext w (step_key (ctx w) stepName) = None"
  shows "perf_onStepComplete stepName w = (Normal (), w) \<and>
         perf_onStepError stepName error w = (Normal (), w)"
  using assms by (simp add: perf_onStepComplete_def perf_onStepError_def)

theorem perf_onStepComplete_without_start_witness:
  "ext perf_world0 (step_key (ctx perf_world0) ''load'') = None \<and>
   perf_onStepComplete ''load'' perf_world0 = (Normal (), perf_world0) \<and>
   perf_onStepError ''load'' (Error ''boom'') perf_world0 = (Normal (), perf_world0)"
proof -
  have h: "ext perf_world0 (step_key (ctx perf_world0) ''load'') = None"
    by (simp add: perf_world0_def ctx0_def step_key_def)
  show ?thesis
    using h perf_onStepComplete_without_start [OF h, of "Error ''boom''"] by simp
qed

section \<open>The engine: notification and the loop over the steps\<close>

text \<open>
  \<open>notifyObservers\<close> never throws, whatever the callbacks do; it calls every callback for
  the event, in registration order; and it changes no field of the context that the
  callbacks leave alone.
\<close>

lemma observer_keeps_callback:
  "observer_keeps fld ob \<Longrightarrow> callback_of ob ev = Some m \<Longrightarrow> keeps fld m"
  by (cases ev) (auto simp: observer_keeps_def split: option.splits)

lemma notifyFrom_Normal: "fst (notifyFrom i ev obs r) = Normal ()"
proof (induction obs arbitrary: i r)
  case Nil
  show ?case by simp
next
  case (Cons ob rest)
  show ?case
  proof (cases "callback_of ob ev")
    case None
    then show ?thesis using Cons.IH by simp
  next
    case (Some m)
    obtain res w' where m: "m (world r) = (res, w')" by (cases "m (world r)")
    show ?thesis
      using Some m Cons.IH
      by (cases res) (simp_all add: js_try_catch_def call_observer_def console_error_def)
  qed
qed

lemma notifyFrom_calls: "calls (snd (notifyFrom i ev obs r)) = calls r @ notified i ev obs"
proof (induction obs arbitrary: i r)
  case Nil
  show ?case by simp
next
  case (Cons ob rest)
  show ?case
  proof (cases "callback_of ob ev")
    case None
    then show ?thesis using Cons.IH by simp
  next
    case (Some m)
    obtain res w' where m: "m (world r) = (res, w')" by (cases "m (world r)")
    show ?thesis
      using Some m Cons.IH
      by (cases res) (simp_all add: js_try_catch_def call_observer_def console_error_def)
  qed
qed

lemma notifyFrom_keeps:
  assumes "\<forall>ob\<in>set obs. observer_keeps fld ob"
  shows "fld (ctx (world (snd (notifyFrom i ev obs r)))) = fld (ctx (world r))"
  using assms
proof (induction obs arbitrary: i r)
  case Nil
  show ?case by simp
next
  case (Cons ob rest)
  show ?case
  proof (cases "callback_of ob ev")
    case None
    then show ?thesis using Cons by simp
  next
    case (Some m)
    obtain res w' where m: "m (world r) = (res, w')" by (cases "m (world r)")
    have "keeps fld m" using Cons.prems Some observer_keeps_callback by fastforce
    then have k: "fld (ctx w') = fld (ctx (world r))" using m by (auto simp: keeps_def dest: spec [of _ "world r"])
    show ?thesis
      using Some m Cons k
      by (cases res) (simp_all add: js_try_catch_def call_observer_def console_error_def)
  qed
qed


lemma notifyFrom_world: "world (snd (notifyFrom i ev obs r)) = notify_world ev obs (world r)"
proof (induction obs arbitrary: i r)
  case Nil
  show ?case by simp
next
  case (Cons ob rest)
  show ?case
  proof (cases "callback_of ob ev")
    case None
    then show ?thesis using Cons.IH by simp
  next
    case (Some m)
    obtain res w' where m: "m (world r) = (res, w')" by (cases "m (world r)")
    show ?thesis
      using Some m Cons.IH
      by (cases res) (simp_all add: js_try_catch_def call_observer_def console_error_def)
  qed
qed

lemma notify_world_keeps:
  assumes "\<forall>ob\<in>set obs. observer_keeps fld ob"
  shows "fld (ctx (notify_world ev obs w)) = fld (ctx w)"
  using assms
proof (induction obs arbitrary: w)
  case Nil
  show ?case by simp
next
  case (Cons ob rest)
  show ?case
  proof (cases "callback_of ob ev")
    case None
    then show ?thesis using Cons by simp
  next
    case (Some m)
    have "keeps fld m" using Cons.prems Some observer_keeps_callback by fastforce
    then have "fld (ctx (snd (m w))) = fld (ctx w)" by (simp add: keeps_def)
    then show ?thesis using Some Cons by simp
  qed
qed

lemma notifyObservers_eq:
  "notifyObservers ev obs r = (Normal (), snd (notifyObservers ev obs r))"
  using notifyFrom_Normal [of 0 ev obs r]
  by (cases "notifyFrom 0 ev obs r") (simp add: notifyObservers_def)

lemma notifyObservers_obtain:
  obtains r' where "notifyObservers ev obs r = (Normal (), r')"
  using notifyObservers_eq by blast

lemma loop_body_ok:
  assumes "call_step s (before_step eng s r) = (Normal u, r3)"
  shows "loop_body eng s r =
           (Normal Continue,
            snd (notifyObservers (OnStepComplete (step_name s)) (observers eng) r3))"
proof -
  obtain r2 where a: "notifyObservers (OnStepStart (step_name s)) (observers eng)
                        (r\<lparr>world := set_currentStepName (step_name s) (world r)\<rparr>) =
                      (Normal (), r2)"
    by (rule notifyObservers_obtain)
  then have r2: "before_step eng s r = r2" by (simp add: before_step_def)
  obtain r4 where b: "notifyObservers (OnStepComplete (step_name s)) (observers eng) r3 =
                      (Normal (), r4)"
    by (rule notifyObservers_obtain)
  show ?thesis
    using a b assms unfolding r2
    by (simp add: loop_body_def js_bind_def js_try_catch_def lift_world_def js_return_def)
qed

lemma loop_body_fail:
  assumes "call_step s (before_step eng s r) = (Throw e, r3)"
    and "error_message e = Inr msg"
  shows "loop_body eng s r =
           (Normal (if continueOnError (options eng) \<noteq> Some True then Break else Continue),
            snd (notifyObservers (OnStepError (step_name s) e) (observers eng)
                   (r3\<lparr>world := snd (addError (step_name s) e (world r3))\<rparr>)))"
proof -
  obtain r2 where a: "notifyObservers (OnStepStart (step_name s)) (observers eng)
                        (r\<lparr>world := set_currentStepName (step_name s) (world r)\<rparr>) =
                      (Normal (), r2)"
    by (rule notifyObservers_obtain)
  then have r2: "before_step eng s r = r2" by (simp add: before_step_def)
  obtain r4 where b: "notifyObservers (OnStepError (step_name s) e) (observers eng)
                        (r3\<lparr>world := snd (addError (step_name s) e (world r3))\<rparr>) =
                      (Normal (), r4)"
    by (rule notifyObservers_obtain)
  show ?thesis
    using a b assms unfolding r2
    by (simp add: loop_body_def js_bind_def js_try_catch_def lift_world_def lift_js_def
        js_return_def addError_def)
qed

lemma loop_body_raise:
  assumes "call_step s (before_step eng s r) = (Throw e, r3)"
    and "error_message e = Inl x"
  shows "loop_body eng s r = (Throw x, r3)"
proof -
  obtain r2 where a: "notifyObservers (OnStepStart (step_name s)) (observers eng)
                        (r\<lparr>world := set_currentStepName (step_name s) (world r)\<rparr>) =
                      (Normal (), r2)"
    by (rule notifyObservers_obtain)
  then have r2: "before_step eng s r = r2" by (simp add: before_step_def)
  show ?thesis
    using a assms unfolding r2
    by (simp add: loop_body_def js_bind_def js_try_catch_def lift_world_def lift_js_def
        addError_def)
qed

lemma call_step_cases:
  obtains (resolved) r3 where "call_step s r = (Normal (), r3)"
      "world r3 = snd (step_execute s (world r))"
      "calls r3 = calls r @ [Executed (step_name s) None]"
      "fst (step_execute s (world r)) = Normal ()"
  | (rejected) e r3 where "call_step s r = (Throw e, r3)"
      "world r3 = snd (step_execute s (world r))"
      "calls r3 = calls r @ [Executed (step_name s) (Some e)]"
      "fst (step_execute s (world r)) = Throw e"
proof (cases "step_execute s (world r)")
  case (Pair res w')
  show ?thesis
  proof (cases res)
    case (Normal u)
    then show ?thesis using Pair resolved by (simp add: call_step_def)
  next
    case (Throw e)
    then show ?thesis using Pair rejected by (simp add: call_step_def)
  qed
qed


lemma notifyObservers_calls:
  "calls (snd (notifyObservers ev obs r)) = calls r @ notified 0 ev obs"
  by (simp add: notifyObservers_def notifyFrom_calls)

lemma notifyObservers_keeps:
  assumes "\<forall>ob\<in>set obs. observer_keeps fld ob"
  shows "fld (ctx (world (snd (notifyObservers ev obs r)))) = fld (ctx (world r))"
  using assms by (simp add: notifyObservers_def notifyFrom_keeps)

lemma before_step_calls:
  "calls (before_step eng s r) = calls r @ notified 0 (OnStepStart (step_name s)) (observers eng)"
  by (simp add: before_step_def notifyObservers_calls)

lemma before_step_world: "world (before_step eng s r) = step_start_world eng s (world r)"
  by (simp add: before_step_def step_start_world_def notifyObservers_def notifyFrom_world)

lemma notifyObservers_world:
  "world (snd (notifyObservers ev obs r)) = notify_world ev obs (world r)"
  by (simp add: notifyObservers_def notifyFrom_world)

lemma before_step_errors:
  assumes "\<forall>ob\<in>set (observers eng). observer_keeps errors ob"
  shows "errors (ctx (world (before_step eng s r))) = errors (ctx (world r))"
  using assms
  by (simp add: before_step_def notifyObservers_keeps set_currentStepName_def)

lemma before_step_currentStepName:
  assumes "\<forall>ob\<in>set (observers eng). observer_keeps currentStepName ob"
  shows "currentStepName (ctx (world (before_step eng s r))) = Some (step_name s)"
  using assms
  by (simp add: before_step_def notifyObservers_keeps set_currentStepName_def)

lemma keeps_snd: "keeps fld f \<Longrightarrow> fld (ctx (snd (f w))) = fld (ctx w)"
  by (simp add: keeps_def)

text \<open>
  The three ways a turn of the loop can go: the step resolves; the step rejects with a
  value that has a message, which is recorded and notified; the step rejects with a value
  whose conversion throws, and the turn throws with it.
\<close>

lemma loop_body_cases:
  obtains (resolved) w' r' where
      "step_execute s (step_start_world eng s (world r)) = (Normal (), w')"
      "loop_body eng s r = (Normal Continue, r')"
      "world r' = step_complete_world eng s w'"
      "calls r' = calls r @ notified 0 (OnStepStart (step_name s)) (observers eng) @
         [Executed (step_name s) None] @
         notified 0 (OnStepComplete (step_name s)) (observers eng)"
  | (rejected) e msg w' r' where
      "step_execute s (step_start_world eng s (world r)) = (Throw e, w')"
      "error_message e = Inr msg"
      "loop_body eng s r =
         (Normal (if continueOnError (options eng) \<noteq> Some True then Break else Continue), r')"
      "world r' = step_error_world eng s e w'"
      "calls r' = calls r @ notified 0 (OnStepStart (step_name s)) (observers eng) @
         [Executed (step_name s) (Some e)] @
         notified 0 (OnStepError (step_name s) e) (observers eng)"
  | (raised) e x w' r' where
      "step_execute s (step_start_world eng s (world r)) = (Throw e, w')"
      "error_message e = Inl x"
      "loop_body eng s r = (Throw x, r')"
      "world r' = w'"
      "calls r' = calls r @ notified 0 (OnStepStart (step_name s)) (observers eng) @
         [Executed (step_name s) (Some e)]"
proof (cases rule: call_step_cases [of s "before_step eng s r"])
  case (resolved r3)
  let ?w' = "snd (step_execute s (step_start_world eng s (world r)))"
  let ?r' = "snd (notifyObservers (OnStepComplete (step_name s)) (observers eng) r3)"
  have 0: "step_execute s (step_start_world eng s (world r)) = (Normal (), ?w')"
    using resolved(4) unfolding before_step_world
    by (cases "step_execute s (step_start_world eng s (world r))") simp
  have 1: "loop_body eng s r = (Normal Continue, ?r')"
    using resolved(1) by (rule loop_body_ok)
  have 2: "world ?r' = step_complete_world eng s ?w'"
    using resolved(2)
    by (simp add: notifyObservers_world step_complete_world_def before_step_world)
  have 3: "calls ?r' = calls r @ notified 0 (OnStepStart (step_name s)) (observers eng) @
         [Executed (step_name s) None] @
         notified 0 (OnStepComplete (step_name s)) (observers eng)"
    using resolved(3) by (simp add: notifyObservers_calls before_step_calls)
  show ?thesis using 0 1 2 3 by (rule that(1))
next
  case (rejected e r3)
  let ?w' = "snd (step_execute s (step_start_world eng s (world r)))"
  have 0: "step_execute s (step_start_world eng s (world r)) = (Throw e, ?w')"
    using rejected(4) unfolding before_step_world
    by (cases "step_execute s (step_start_world eng s (world r))") simp
  have w3: "world r3 = ?w'"
    using rejected(2) by (simp add: before_step_world)
  have c3: "calls r3 = calls r @ notified 0 (OnStepStart (step_name s)) (observers eng) @
              [Executed (step_name s) (Some e)]"
    using rejected(3) by (simp add: before_step_calls)
  show ?thesis
  proof (cases "error_message e")
    case (Inr msg)
    let ?r4 = "r3\<lparr>world := snd (addError (step_name s) e (world r3))\<rparr>"
    let ?r' = "snd (notifyObservers (OnStepError (step_name s) e) (observers eng) ?r4)"
    have 1: "loop_body eng s r =
         (Normal (if continueOnError (options eng) \<noteq> Some True then Break else Continue), ?r')"
      using rejected(1) Inr by (rule loop_body_fail)
    have 2: "world ?r' = step_error_world eng s e ?w'"
      by (simp add: notifyObservers_world step_error_world_def w3)
    have 3: "calls ?r' = calls r @ notified 0 (OnStepStart (step_name s)) (observers eng) @
         [Executed (step_name s) (Some e)] @
         notified 0 (OnStepError (step_name s) e) (observers eng)"
      by (simp add: notifyObservers_calls c3)
    show ?thesis using 0 Inr 1 2 3 by (rule that(2))
  next
    case (Inl x)
    have 1: "loop_body eng s r = (Throw x, r3)"
      using rejected(1) Inl by (rule loop_body_raise)
    show ?thesis using 0 Inl 1 w3 c3 by (rule that(3))
  qed
qed

text \<open>What the calls of a notification contribute to the steps read off a trace.\<close>

lemma executed_append [simp]: "executed (xs @ ys) = executed xs @ executed ys"
  by (simp add: executed_def)

lemma executed_simps [simp]:
  "executed [] = []"
  "executed (Notified i ev # cs) = executed cs"
  "executed (Executed n res # cs) = n # executed cs"
  by (simp_all add: executed_def)

lemma executed_notified [simp]: "executed (notified i ev obs) = []"
  by (induction obs arbitrary: i) (simp_all split: option.splits)


text \<open>
  Whatever the steps do: the loop executes an initial part of the steps, in order, and it
  throws only the error of a failed conversion of a step's failure.
\<close>

lemma for_steps_summary:
  "\<exists>res r' tr j. for_steps eng ss r = (res, r') \<and> calls r' = calls r @ tr \<and>
     j \<le> length ss \<and> executed tr = map step_name (take j ss) \<and>
     (res = Normal () \<or>
      (\<exists>x. res = Throw x \<and>
         (\<exists>s\<in>set ss. \<exists>w e. fst (step_execute s w) = Throw e \<and> error_message e = Inl x)))"
proof (induction ss arbitrary: r)
  case Nil
  have "for_steps eng [] r = (Normal (), r) \<and> calls r = calls r @ [] \<and>
        (0::nat) \<le> length ([] :: 'a workflow_step list) \<and>
        executed [] = map step_name (take 0 ([] :: 'a workflow_step list))"
    by simp
  then show ?case by blast
next
  case (Cons s rest)
  let ?obs = "observers eng"
  let ?n = "step_name s"
  have ih: "\<And>r1. \<exists>res r' tr j. for_steps eng rest r1 = (res, r') \<and>
       calls r' = calls r1 @ tr \<and> j \<le> length rest \<and>
       executed tr = map step_name (take j rest) \<and>
       (res = Normal () \<or>
        (\<exists>x. res = Throw x \<and>
           (\<exists>s\<in>set rest. \<exists>w e. fst (step_execute s w) = Throw e \<and> error_message e = Inl x)))"
    using Cons.IH by blast
  have go_on: ?case
    if l: "loop_body eng s r = (Normal Continue, r1)"
      and c: "calls r1 = calls r @ tr1" and x: "executed tr1 = [?n]" for r1 tr1
  proof -
    obtain res r' tr j where i:
        "for_steps eng rest r1 = (res, r')" "calls r' = calls r1 @ tr" "j \<le> length rest"
        "executed tr = map step_name (take j rest)"
        "res = Normal () \<or>
         (\<exists>x. res = Throw x \<and>
           (\<exists>s\<in>set rest. \<exists>w e. fst (step_execute s w) = Throw e \<and> error_message e = Inl x))"
      using ih [of r1] by blast
    have 1: "for_steps eng (s # rest) r = (res, r')" using l i(1) by simp
    have 2: "calls r' = calls r @ (tr1 @ tr)" using c i(2) by simp
    have 3: "Suc j \<le> length (s # rest)" using i(3) by simp
    have 4: "executed (tr1 @ tr) = map step_name (take (Suc j) (s # rest))"
      using x i(4) by simp
    have 5: "res = Normal () \<or>
         (\<exists>x. res = Throw x \<and>
           (\<exists>s\<in>set (s # rest). \<exists>w e. fst (step_execute s w) = Throw e \<and>
              error_message e = Inl x))"
      using i(5) by auto
    show ?thesis
      by (rule exI [of _ res], rule exI [of _ r'], rule exI [of _ "tr1 @ tr"],
          rule exI [of _ "Suc j"]) (intro conjI 1 2 3 4 5)
  qed
  have stop: ?case
    if l: "for_steps eng (s # rest) r = (res, r1)"
      and c: "calls r1 = calls r @ tr1" and x: "executed tr1 = [?n]"
      and o: "res = Normal () \<or>
         (\<exists>x. res = Throw x \<and>
           (\<exists>s\<in>set (s # rest). \<exists>w e. fst (step_execute s w) = Throw e \<and>
              error_message e = Inl x))" for res r1 tr1
  proof -
    have 3: "Suc 0 \<le> length (s # rest)" by simp
    have 4: "executed tr1 = map step_name (take (Suc 0) (s # rest))" using x by simp
    show ?thesis
      by (rule exI [of _ res], rule exI [of _ r1], rule exI [of _ tr1],
          rule exI [of _ "Suc 0"]) (intro conjI l c 3 4 o)
  qed
  show ?case
  proof (cases rule: loop_body_cases [of s eng r])
    case (resolved w' r1)
    show ?thesis
      using resolved(2) resolved(4) by (rule go_on) simp
  next
    case (rejected e msg w' r1)
    show ?thesis
    proof (cases "continueOnError (options eng) = Some True")
      case True
      have "loop_body eng s r = (Normal Continue, r1)" using rejected(3) True by simp
      then show ?thesis using rejected(5) by (rule go_on) simp
    next
      case False
      have "for_steps eng (s # rest) r = (Normal (), r1)" using rejected(3) False by simp
      then show ?thesis using rejected(5) by (rule stop) simp_all
    qed
  next
    case (raised e x w' r1)
    have l: "for_steps eng (s # rest) r = (Throw x, r1)" using raised(3) by simp
    have "fst (step_execute s (step_start_world eng s (world r))) = Throw e"
      using raised(1) by simp
    then have o: "Throw x = Normal () \<or>
         (\<exists>y. (Throw x :: unit completion) = Throw y \<and>
           (\<exists>s\<in>set (s # rest). \<exists>w e. fst (step_execute s w) = Throw e \<and>
              error_message e = Inl y))"
      using raised(2) by auto
    show ?thesis using l raised(5) _ o by (rule stop) simp
  qed
qed

text \<open>
  When user code leaves \<open>errors\<close> to the engine, every record bears the name of a step of
  the list.
\<close>

lemma step_start_world_errors:
  assumes "\<forall>ob\<in>set (observers eng). observer_keeps errors ob"
  shows "errors (ctx (step_start_world eng s w)) = errors (ctx w)"
  using assms by (simp add: step_start_world_def notify_world_keeps set_currentStepName_def)

lemma step_complete_world_errors:
  assumes "\<forall>ob\<in>set (observers eng). observer_keeps errors ob"
  shows "errors (ctx (step_complete_world eng s w)) = errors (ctx w)"
  using assms by (simp add: step_complete_world_def notify_world_keeps)

lemma step_error_world_errors:
  assumes "\<forall>ob\<in>set (observers eng). observer_keeps errors ob"
    and "error_message e = Inr msg"
  shows "errors (ctx (step_error_world eng s e w)) =
           errors (ctx w) @
             [\<lparr>step = step_name s, message = msg, details = e, timestamp = now w\<rparr>]"
  using assms by (simp add: step_error_world_def notify_world_keeps addError_def)

lemma for_steps_error_steps:
  assumes "\<forall>s\<in>set ss. keeps errors (step_execute s)"
    and "\<forall>ob\<in>set (observers eng). observer_keeps errors ob"
  shows "step ` set (errors (ctx (world (snd (for_steps eng ss r))))) \<subseteq>
           step ` set (errors (ctx (world r))) \<union> step_name ` set ss"
  using assms(1)
proof (induction ss arbitrary: r)
  case Nil
  show ?case by simp
next
  case (Cons s rest)
  have ks: "keeps errors (step_execute s)" and krest: "\<forall>s\<in>set rest. keeps errors (step_execute s)"
    using Cons.prems by simp_all
  have kept: "errors (ctx w') = errors (ctx (world r))"
    if "step_execute s (step_start_world eng s (world r)) = (res, w')" for res w'
    using keeps_snd [OF ks, of "step_start_world eng s (world r)"] that
    by (simp add: step_start_world_errors [OF assms(2)])
  show ?case
  proof (cases rule: loop_body_cases [of s eng r])
    case (resolved w' r1)
    have e: "errors (ctx (world r1)) = errors (ctx (world r))"
      using resolved(3) kept [OF resolved(1)]
      by (simp add: step_complete_world_errors [OF assms(2)])
    show ?thesis
      using resolved(2) Cons.IH [OF krest, of r1] e by auto
  next
    case (rejected e msg w' r1)
    have e: "errors (ctx (world r1)) = errors (ctx (world r)) @
               [\<lparr>step = step_name s, message = msg, details = e, timestamp = now w'\<rparr>]"
      using rejected(4) kept [OF rejected(1)]
      by (simp add: step_error_world_errors [OF assms(2) rejected(2)])
    show ?thesis
    proof (cases "continueOnError (options eng) = Some True")
      case True
      then show ?thesis
        using rejected(3) Cons.IH [OF krest, of r1] e by auto
    next
      case False
      then show ?thesis
        using rejected(3) e by auto
    qed
  next
    case (raised e x w' r1)
    have "errors (ctx (world r1)) = errors (ctx (world r))"
      using raised(4) kept [OF raised(1)] by simp
    then show ?thesis
      using raised(3) by auto
  qed
qed

section \<open>The engine: a whole run\<close>

lemma execute_eq:
  assumes "for_steps eng (steps eng) (started eng inp r) = (Normal (), r2)"
  shows "execute eng inp r = (Normal (ctx (world (finished eng r2))), finished eng r2)"
proof -
  obtain r1 where 1: "notifyObservers OnWorkflowStart (observers eng)
                        (r\<lparr>world := WorkflowContext (context_options eng inp) (world r)\<rparr>) =
                      (Normal (), r1)"
    by (rule notifyObservers_obtain)
  then have r1: "started eng inp r = r1" by (simp add: started_def)
  obtain r3 where 3: "notifyObservers OnWorkflowComplete (observers eng)
                        (r2\<lparr>world := complete (world r2)\<rparr>) = (Normal (), r3)"
    by (rule notifyObservers_obtain)
  then have r3: "finished eng r2 = r3" by (simp add: finished_def)
  show ?thesis
    using 1 3 assms unfolding r1 r3
    by (simp add: execute_def js_bind_def lift_world_def)
qed

lemma execute_raise:
  assumes "for_steps eng (steps eng) (started eng inp r) = (Throw x, r2)"
  shows "execute eng inp r = (Throw x, r2)"
proof -
  obtain r1 where 1: "notifyObservers OnWorkflowStart (observers eng)
                        (r\<lparr>world := WorkflowContext (context_options eng inp) (world r)\<rparr>) =
                      (Normal (), r1)"
    by (rule notifyObservers_obtain)
  then have r1: "started eng inp r = r1" by (simp add: started_def)
  show ?thesis
    using 1 assms unfolding r1
    by (simp add: execute_def js_bind_def lift_world_def)
qed

lemma started_calls:
  "calls (started eng inp r) = calls r @ notified 0 OnWorkflowStart (observers eng)"
  by (simp add: started_def notifyObservers_calls)

lemma started_world: "world (started eng inp r) = started_world eng inp (world r)"
  by (simp add: started_def started_world_def notifyObservers_world)

lemma finished_calls:
  "calls (finished eng r) = calls r @ notified 0 OnWorkflowComplete (observers eng)"
  by (simp add: finished_def notifyObservers_calls)

lemma finished_world: "world (finished eng r) = finished_world eng (world r)"
  by (simp add: finished_def finished_world_def notifyObservers_world)

lemma WorkflowContext_errors [simp]: "errors (ctx (WorkflowContext opts w)) = []"
  by (simp add: WorkflowContext_def Let_def split: prod.splits)

lemma started_world_errors:
  assumes "\<forall>ob\<in>set (observers eng). observer_keeps errors ob"
  shows "errors (ctx (started_world eng inp w)) = []"
  using assms by (simp add: started_world_def notify_world_keeps)

lemma finished_world_errors:
  assumes "\<forall>ob\<in>set (observers eng). observer_keeps errors ob"
  shows "errors (ctx (finished_world eng w)) = errors (ctx w)"
  using assms by (simp add: finished_world_def notify_world_keeps complete_def)





lemma execute_summary:
  "\<exists>res r' tr j. execute eng inp r = (res, r') \<and> calls r' = calls r @ tr \<and>
     j \<le> length (steps eng) \<and> executed tr = map step_name (take j (steps eng)) \<and>
     (res = Normal (ctx (world r')) \<or> (\<exists>x. res = Throw x \<and> conversion_error eng x))"
proof -
  obtain res r2 tr j where s:
      "for_steps eng (steps eng) (started eng inp r) = (res, r2)"
      "calls r2 = calls (started eng inp r) @ tr"
      "j \<le> length (steps eng)" "executed tr = map step_name (take j (steps eng))"
      "res = Normal () \<or> (\<exists>x. res = Throw x \<and> conversion_error eng x)"
    using for_steps_summary [of eng "steps eng" "started eng inp r"]
    unfolding conversion_error_def by blast
  show ?thesis
  proof (cases res)
    case (Normal u)
    let ?tr = "notified 0 OnWorkflowStart (observers eng) @ tr @
               notified 0 OnWorkflowComplete (observers eng)"
    have a: "execute eng inp r = (Normal (ctx (world (finished eng r2))), finished eng r2)"
      using s(1) Normal by (intro execute_eq) simp
    have b: "calls (finished eng r2) = calls r @ ?tr"
      by (simp add: finished_calls s(2) started_calls)
    have c: "executed ?tr = map step_name (take j (steps eng))"
      using s(4) by simp
    have d: "Normal (ctx (world (finished eng r2))) = Normal (ctx (world (finished eng r2))) \<or>
             (\<exists>x. Normal (ctx (world (finished eng r2))) = Throw x \<and> conversion_error eng x)"
      by simp
    show ?thesis
      by (rule exI [of _ "Normal (ctx (world (finished eng r2)))"],
          rule exI [of _ "finished eng r2"], rule exI [of _ ?tr], rule exI [of _ j])
         (intro conjI a b s(3) c d)
  next
    case (Throw x)
    let ?tr = "notified 0 OnWorkflowStart (observers eng) @ tr"
    have a: "execute eng inp r = (Throw x, r2)"
      using s(1) Throw by (intro execute_raise) simp
    have b: "calls r2 = calls r @ ?tr"
      by (simp add: s(2) started_calls)
    have c: "executed ?tr = map step_name (take j (steps eng))"
      using s(4) by simp
    have d: "Throw x = Normal (ctx (world r2)) \<or>
             (\<exists>y. (Throw x :: workflow_context completion) = Throw y \<and> conversion_error eng y)"
      using s(5) Throw by simp
    show ?thesis
      by (rule exI [of _ "Throw x"], rule exI [of _ r2], rule exI [of _ ?tr],
          rule exI [of _ j]) (intro conjI a b s(3) c d)
  qed
qed

lemma execute_error_steps:
  assumes "user_code_keeps errors eng"
  shows "step ` set (errors (ctx (world (snd (execute eng inp r))))) \<subseteq>
           step_name ` set (steps eng)"
proof -
  have k: "\<forall>s\<in>set (steps eng). keeps errors (step_execute s)"
          "\<forall>ob\<in>set (observers eng). observer_keeps errors ob"
    using assms by (simp_all add: user_code_keeps_def)
  obtain res r2 where s: "for_steps eng (steps eng) (started eng inp r) = (res, r2)"
    by (cases "for_steps eng (steps eng) (started eng inp r)")
  have e: "step ` set (errors (ctx (world r2))) \<subseteq> step_name ` set (steps eng)"
    using for_steps_error_steps [OF k, of "started eng inp r"] s
    by (simp add: started_world started_world_errors [OF k(2)])
  show ?thesis
  proof (cases res)
    case (Normal u)
    have "execute eng inp r = (Normal (ctx (world (finished eng r2))), finished eng r2)"
      using s Normal by (intro execute_eq) simp
    then show ?thesis
      using e by (simp add: finished_world finished_world_errors [OF k(2)])
  next
    case (Throw x)
    have "execute eng inp r = (Throw x, r2)"
      using s Throw by (intro execute_raise) simp
    then show ?thesis using e by simp
  qed
qed

section \<open>Observer failures\<close>

text \<open>
  A run with its observers, and the same run with observers whose callbacks have the same
  effects but never throw, go through the same worlds and make the same calls.
\<close>

lemma callback_of_succeeding:
  "callback_of (succeeding_observer ob) ev = map_option succeeding (callback_of ob ev)"
  by (cases ev) (simp_all add: succeeding_observer_def option.map_comp comp_def)

lemma notifyFrom_succeeding:
  assumes "world q = world r" and "calls q = calls r"
  shows "world (snd (notifyFrom i ev (map succeeding_observer obs) q)) =
           world (snd (notifyFrom i ev obs r)) \<and>
         calls (snd (notifyFrom i ev (map succeeding_observer obs) q)) =
           calls (snd (notifyFrom i ev obs r))"
  using assms
proof (induction obs arbitrary: i r q)
  case Nil
  then show ?case by simp
next
  case (Cons ob rest)
  show ?case
  proof (cases "callback_of ob ev")
    case None
    then show ?thesis
      using Cons.IH [OF Cons.prems] by (simp add: callback_of_succeeding)
  next
    case (Some m)
    obtain res w' where m: "m (world r) = (res, w')" by (cases "m (world r)")
    let ?q1 = "q\<lparr>world := w', calls := calls q @ [Notified i ev]\<rparr>"
    have q: "notifyFrom i ev (map succeeding_observer (ob # rest)) q =
               notifyFrom (Suc i) ev (map succeeding_observer rest) ?q1"
      using Some m Cons.prems
      by (simp add: callback_of_succeeding succeeding_def js_try_catch_def call_observer_def)
    show ?thesis
    proof (cases res)
      case (Normal u)
      let ?r1 = "r\<lparr>world := w', calls := calls r @ [Notified i ev]\<rparr>"
      have r: "notifyFrom i ev (ob # rest) r = notifyFrom (Suc i) ev rest ?r1"
        using Some m Normal by (simp add: js_try_catch_def call_observer_def)
      have "world ?q1 = world ?r1" "calls ?q1 = calls ?r1"
        using Cons.prems by simp_all
      then show ?thesis unfolding q r by (rule Cons.IH)
    next
      case (Throw e)
      let ?r1 = "r\<lparr>world := w', calls := calls r @ [Notified i ev],
                   console := console r @
                     [(''Error in workflow observer ('' @ eventName ev @ '')'', e)]\<rparr>"
      have r: "notifyFrom i ev (ob # rest) r = notifyFrom (Suc i) ev rest ?r1"
        using Some m Throw
        by (simp add: js_try_catch_def call_observer_def console_error_def)
      have "world ?q1 = world ?r1" "calls ?q1 = calls ?r1"
        using Cons.prems by simp_all
      then show ?thesis unfolding q r by (rule Cons.IH)
    qed
  qed
qed

lemma notifyObservers_succeeding:
  assumes "world q = world r" and "calls q = calls r"
  shows "world (snd (notifyObservers ev (map succeeding_observer obs) q)) =
           world (snd (notifyObservers ev obs r))"
    and "calls (snd (notifyObservers ev (map succeeding_observer obs) q)) =
           calls (snd (notifyObservers ev obs r))"
  using notifyFrom_succeeding [OF assms, of 0 ev obs] by (simp_all add: notifyObservers_def)

lemma call_step_same:
  assumes "world q = world r" and "calls q = calls r"
  shows "fst (call_step s q) = fst (call_step s r)"
    and "world (snd (call_step s q)) = world (snd (call_step s r))"
    and "calls (snd (call_step s q)) = calls (snd (call_step s r))"
  using assms by (simp_all add: call_step_def split: prod.splits)

lemma loop_body_succeeding:
  fixes eng :: "'x workflow_engine"
  defines "eng' \<equiv> eng\<lparr>observers := map succeeding_observer (observers eng)\<rparr>"
  assumes "world q = world r" and "calls q = calls r"
  shows "fst (loop_body eng' s q) = fst (loop_body eng s r) \<and>
         world (snd (loop_body eng' s q)) = world (snd (loop_body eng s r)) \<and>
         calls (snd (loop_body eng' s q)) = calls (snd (loop_body eng s r))"
proof -
  let ?n = "step_name s"
  let ?q2 = "before_step eng' s q" and ?r2 = "before_step eng s r"
  have o: "observers eng' = map succeeding_observer (observers eng)"
    "options eng' = options eng"
    by (simp_all add: eng'_def)
  have b: "world ?q2 = world ?r2" "calls ?q2 = calls ?r2"
    unfolding before_step_def o
    by (rule notifyObservers_succeeding; simp add: assms(2,3))+
  obtain res r3 where r3: "call_step s ?r2 = (res, r3)" by (cases "call_step s ?r2")
  obtain res' q3 where q3: "call_step s ?q2 = (res', q3)" by (cases "call_step s ?q2")
  have c: "res' = res" "world q3 = world r3" "calls q3 = calls r3"
    using call_step_same [OF b, of s] r3 q3 by simp_all
  show ?thesis
  proof (cases res)
    case (Normal u)
    have "loop_body eng s r =
            (Normal Continue, snd (notifyObservers (OnStepComplete ?n) (observers eng) r3))"
      using r3 Normal by (intro loop_body_ok) simp
    moreover have "loop_body eng' s q =
            (Normal Continue, snd (notifyObservers (OnStepComplete ?n) (observers eng') q3))"
      using q3 c(1) Normal by (intro loop_body_ok) simp
    ultimately show ?thesis
      using notifyObservers_succeeding [OF c(2,3), of "OnStepComplete ?n" "observers eng"]
      by (simp add: o)
  next
    case (Throw e)
    show ?thesis
    proof (cases "error_message e")
      case (Inr msg)
      let ?r4 = "r3\<lparr>world := snd (addError ?n e (world r3))\<rparr>"
      let ?q4 = "q3\<lparr>world := snd (addError ?n e (world q3))\<rparr>"
      have "loop_body eng s r =
            (Normal (if continueOnError (options eng) \<noteq> Some True then Break else Continue),
             snd (notifyObservers (OnStepError ?n e) (observers eng) ?r4))"
        using r3 Throw Inr by (intro loop_body_fail) simp_all
      moreover have "loop_body eng' s q =
            (Normal (if continueOnError (options eng') \<noteq> Some True then Break else Continue),
             snd (notifyObservers (OnStepError ?n e) (observers eng') ?q4))"
        using q3 c(1) Throw Inr by (intro loop_body_fail) simp_all
      moreover have "world ?q4 = world ?r4" "calls ?q4 = calls ?r4"
        using c by simp_all
      ultimately show ?thesis
        using notifyObservers_succeeding [of ?q4 ?r4 "OnStepError ?n e" "observers eng"]
        by (simp add: o)
    next
      case (Inl x)
      have "loop_body eng s r = (Throw x, r3)"
        using r3 Throw Inl by (intro loop_body_raise) simp_all
      moreover have "loop_body eng' s q = (Throw x, q3)"
        using q3 c(1) Throw Inl by (intro loop_body_raise) simp_all
      ultimately show ?thesis using c by simp
    qed
  qed
qed

lemma for_steps_succeeding:
  fixes eng :: "'x workflow_engine"
  defines "eng' \<equiv> eng\<lparr>observers := map succeeding_observer (observers eng)\<rparr>"
  assumes "world q = world r" and "calls q = calls r"
  shows "fst (for_steps eng' ss q) = fst (for_steps eng ss r) \<and>
         world (snd (for_steps eng' ss q)) = world (snd (for_steps eng ss r)) \<and>
         calls (snd (for_steps eng' ss q)) = calls (snd (for_steps eng ss r))"
  using assms(2,3)
proof (induction ss arbitrary: q r)
  case Nil
  then show ?case by simp
next
  case (Cons s rest)
  obtain res r1 where r1: "loop_body eng s r = (res, r1)" by (cases "loop_body eng s r")
  obtain res' q1 where q1: "loop_body eng' s q = (res', q1)" by (cases "loop_body eng' s q")
  have l: "res' = res" "world q1 = world r1" "calls q1 = calls r1"
    using loop_body_succeeding [OF Cons.prems, of eng s] r1 q1
    by (simp_all add: eng'_def)
  show ?case
  proof (cases res)
    case (Normal sig)
    show ?thesis
    proof (cases sig)
      case Continue
      then show ?thesis
        using r1 q1 l(1) Normal Cons.IH [OF l(2,3)] by simp
    next
      case Break
      then show ?thesis
        using r1 q1 l Normal by simp
    qed
  next
    case (Throw x)
    then show ?thesis
      using r1 q1 l by simp
  qed
qed

lemma notifyFrom_caught:
  assumes "callback_of ob ev = Some m" and "m (world r) = (Throw e, w')"
  shows "notifyFrom i ev (ob # rest) r =
           notifyFrom (Suc i) ev rest
             (r\<lparr>world := w', calls := calls r @ [Notified i ev],
                console := console r @
                  [(''Error in workflow observer ('' @ eventName ev @ '')'', e)]\<rparr>)"
  using assms by (simp add: js_try_catch_def call_observer_def console_error_def)

lemma execute_succeeding:
  fixes eng :: "'x workflow_engine"
  defines "eng' \<equiv> eng\<lparr>observers := map succeeding_observer (observers eng)\<rparr>"
  shows "\<exists>res r' q'. execute eng inp r = (res, r') \<and> execute eng' inp r = (res, q') \<and>
           world q' = world r' \<and> calls q' = calls r' \<and>
           (res = Normal (ctx (world r')) \<or> (\<exists>x. res = Throw x \<and> conversion_error eng x))"
proof -
  have o: "observers eng' = map succeeding_observer (observers eng)"
    "steps eng' = steps eng" "context_options eng' inp = context_options eng inp"
    by (simp_all add: eng'_def context_options_def)
  have s: "world (started eng' inp r) = world (started eng inp r)"
    "calls (started eng' inp r) = calls (started eng inp r)"
    unfolding started_def o
    by (rule notifyObservers_succeeding; simp)+
  obtain res r2 where r2: "for_steps eng (steps eng) (started eng inp r) = (res, r2)"
    by (cases "for_steps eng (steps eng) (started eng inp r)")
  obtain res' q2 where q2: "for_steps eng' (steps eng') (started eng' inp r) = (res', q2)"
    by (cases "for_steps eng' (steps eng') (started eng' inp r)")
  have f: "res' = res" "world q2 = world r2" "calls q2 = calls r2"
    using for_steps_succeeding [OF s, of eng "steps eng"] r2 q2
    by (simp_all add: eng'_def)
  obtain res0 r0 where d: "execute eng inp r = (res0, r0)"
      "res0 = Normal (ctx (world r0)) \<or> (\<exists>x. res0 = Throw x \<and> conversion_error eng x)"
    using execute_summary [of eng inp r] by blast
  show ?thesis
  proof (cases res)
    case (Normal u)
    have g: "world (finished eng' q2) = world (finished eng r2)"
      "calls (finished eng' q2) = calls (finished eng r2)"
      unfolding finished_def o
      by (rule notifyObservers_succeeding; simp add: f)+
    have a: "execute eng inp r = (Normal (ctx (world (finished eng r2))), finished eng r2)"
      using r2 Normal by (intro execute_eq) simp
    have "execute eng' inp r = (Normal (ctx (world (finished eng' q2))), finished eng' q2)"
      using q2 f(1) Normal by (intro execute_eq) simp
    then have b: "execute eng' inp r =
                    (Normal (ctx (world (finished eng r2))), finished eng' q2)"
      by (simp add: g)
    have c: "Normal (ctx (world (finished eng r2))) = Normal (ctx (world (finished eng r2))) \<or>
             (\<exists>x. Normal (ctx (world (finished eng r2))) = Throw x \<and> conversion_error eng x)"
      by simp
    show ?thesis
      by (rule exI [of _ "Normal (ctx (world (finished eng r2)))"],
          rule exI [of _ "finished eng r2"], rule exI [of _ "finished eng' q2"])
         (intro conjI a b g c)
  next
    case (Throw x)
    have a: "execute eng inp r = (Throw x, r2)"
      using r2 Throw by (intro execute_raise) simp
    have b: "execute eng' inp r = (Throw x, q2)"
      using q2 f(1) Throw by (intro execute_raise) simp
    have c: "Throw x = Normal (ctx (world r2)) \<or>
             (\<exists>y. (Throw x :: workflow_context completion) = Throw y \<and> conversion_error eng y)"
      using d a by auto
    show ?thesis
      by (rule exI [of _ "Throw x"], rule exI [of _ r2], rule exI [of _ q2])
         (intro conjI a b f(2) f(3) c)
  qed
qed

text \<open>
  C7. For every event and list of observers, \<open>notifyObservers\<close> completes normally and
  calls the callback of every observer that has one, in registration order, whichever of
  them throw. Where a callback throws \<open>e\<close>, the failure is caught and logged with
  \<^verbatim>\<open>console.error\<close>, the loop goes on with the next observer, and the world is the one the
  callback left: the engine adds nothing to the context, so no record of the failure
  enters \<open>errors\<close>. And a whole run is the same as the run in which the callbacks succeed:
  the same outcome (the returned context, unless the conversion of a step's failure
  threw), the same world, the same calls in the same order.
\<close>

theorem observer_failures_are_contained:
  "(\<exists>r'. notifyObservers ev obs r = (Normal (), r') \<and> calls r' = calls r @ notified 0 ev obs) \<and>
   (callback_of ob ev = Some m \<and> m (world r) = (Throw e, w') \<longrightarrow>
      notifyFrom i ev (ob # rest) r =
        notifyFrom (Suc i) ev rest
          (r\<lparr>world := w', calls := calls r @ [Notified i ev],
             console := console r @
               [(''Error in workflow observer ('' @ eventName ev @ '')'', e)]\<rparr>)) \<and>
   (\<exists>res r' q'. execute eng inp r = (res, r') \<and>
      execute (eng\<lparr>observers := map succeeding_observer (observers eng)\<rparr>) inp r = (res, q') \<and>
      world q' = world r' \<and> calls q' = calls r' \<and>
      (res = Normal (ctx (world r')) \<or> (\<exists>x. res = Throw x \<and> conversion_error eng x)))"
proof (intro conjI impI)
  show "\<exists>r'. notifyObservers ev obs r = (Normal (), r') \<and> calls r' = calls r @ notified 0 ev obs"
    using notifyObservers_eq [of ev obs r] notifyObservers_calls [of ev obs r] by blast
next
  assume "callback_of ob ev = Some m \<and> m (world r) = (Throw e, w')"
  then show "notifyFrom i ev (ob # rest) r =
        notifyFrom (Suc i) ev rest
          (r\<lparr>world := w', calls := calls r @ [Notified i ev],
             console := console r @
               [(''Error in workflow observer ('' @ eventName ev @ '')'', e)]\<rparr>)"
    using notifyFrom_caught [of ob ev m r e w' i rest] by blast
next
  show "\<exists>res r' q'. execute eng inp r = (res, r') \<and>
      execute (eng\<lparr>observers := map succeeding_observer (observers eng)\<rparr>) inp r = (res, q') \<and>
      world q' = world r' \<and> calls q' = calls r' \<and>
      (res = Normal (ctx (world r')) \<or> (\<exists>x. res = Throw x \<and> conversion_error eng x))"
    by (rule execute_succeeding)
qed

theorem observer_failures_are_contained_witness:
  "callback_of throwing_observer OnWorkflowStart =
     Some (\<lambda>w. (Throw (Prim (JSString ''observer failed'')), log_line ''!'' w)) \<and>
   (\<lambda>w. (Throw (Prim (JSString ''observer failed'')), log_line ''!'' w)) (world run0) =
     (Throw (Prim (JSString ''observer failed'')), log_line ''!'' world0) \<and>
   notifyFrom 0 OnWorkflowStart [throwing_observer, logging_observer] run0 =
     (Normal (),
      \<lparr>world = log_line ''workflow start'' (log_line ''!'' world0),
       console = [(''Error in workflow observer (onWorkflowStart)'',
                   Prim (JSString ''observer failed''))],
       calls = [Notified 0 OnWorkflowStart, Notified 1 OnWorkflowStart]\<rparr>)"
proof -
  let ?m = "\<lambda>w :: string list world.
              (Throw (Prim (JSString ''observer failed'')) :: unit completion, log_line ''!'' w)"
  have h: "callback_of throwing_observer OnWorkflowStart = Some ?m \<and>
           ?m (world run0) = (Throw (Prim (JSString ''observer failed'')), log_line ''!'' world0)"
    by (simp add: throwing_observer_def run0_def)
  have "notifyFrom 0 OnWorkflowStart (throwing_observer # [logging_observer]) run0 =
        notifyFrom (Suc 0) OnWorkflowStart [logging_observer]
          (run0\<lparr>world := log_line ''!'' world0,
             calls := calls run0 @ [Notified 0 OnWorkflowStart],
             console := console run0 @
               [(''Error in workflow observer ('' @ eventName OnWorkflowStart @ '')'',
                 Prim (JSString ''observer failed''))]\<rparr>)"
    using observer_failures_are_contained
      [of OnWorkflowStart "[]" run0 throwing_observer ?m
          "Prim (JSString ''observer failed'')" "log_line ''!'' world0" 0 "[logging_observer]"] h
    by blast
  then show ?thesis
    using h
    by (simp add: logging_observer_def run0_def js_try_catch_def call_observer_def)
qed

section \<open>The concurrency option\<close>

lemma execute_cong:
  assumes "steps eng' = steps eng" and "observers eng' = observers eng"
    and "workflow_context_options.truncate (options eng') =
         workflow_context_options.truncate (options eng)"
    and "continueOnError (options eng') = continueOnError (options eng)"
  shows "execute eng' inp r = execute eng inp r"
proof -
  have l: "loop_body eng' s = loop_body eng s" for s
    using assms by (simp add: loop_body_def)
  have f: "for_steps eng' ss q = for_steps eng ss q" for ss q
    by (induction ss arbitrary: q)
       (simp_all add: l split: prod.splits completion.splits loop_control.splits)
  have "for_steps eng' (steps eng') = for_steps eng (steps eng)"
    using f assms(1) by auto
  then show ?thesis
    using assms by (simp add: execute_def context_options_def)
qed

text \<open>
  C9. The engine never reads \<^verbatim>\<open>maxConcurrency\<close>: two engines that differ in it alone, or
  that are built alike from options that differ in it alone, give the same completion
  and the same final state on every input and from every state. Whatever its value, the
  steps executed are an initial part of the registered steps, in registration order, and
  the run returns its context (unless the conversion of a step's failure threw).
\<close>

theorem maxConcurrency_is_inert:
  "execute (eng\<lparr>options := (options eng)\<lparr>maxConcurrency := m1\<rparr>\<rparr>) inp r =
     execute (eng\<lparr>options := (options eng)\<lparr>maxConcurrency := m2\<rparr>\<rparr>) inp r \<and>
   execute (addObservers obs (addSteps ss (WorkflowEngine (opts\<lparr>maxConcurrency := m1\<rparr>)))) inp r =
     execute (addObservers obs (addSteps ss (WorkflowEngine (opts\<lparr>maxConcurrency := m2\<rparr>)))) inp r \<and>
   (\<exists>res r' tr j. execute (eng\<lparr>options := (options eng)\<lparr>maxConcurrency := m1\<rparr>\<rparr>) inp r =
        (res, r') \<and>
      calls r' = calls r @ tr \<and> j \<le> length (steps eng) \<and>
      executed tr = map step_name (take j (steps eng)) \<and>
      (res = Normal (ctx (world r')) \<or> (\<exists>x. res = Throw x \<and> conversion_error eng x)))"
proof (intro conjI)
  show "execute (eng\<lparr>options := (options eng)\<lparr>maxConcurrency := m1\<rparr>\<rparr>) inp r =
     execute (eng\<lparr>options := (options eng)\<lparr>maxConcurrency := m2\<rparr>\<rparr>) inp r"
    by (rule execute_cong) (simp_all add: workflow_context_options.truncate_def)
  show "execute (addObservers obs (addSteps ss (WorkflowEngine (opts\<lparr>maxConcurrency := m1\<rparr>)))) inp r =
     execute (addObservers obs (addSteps ss (WorkflowEngine (opts\<lparr>maxConcurrency := m2\<rparr>)))) inp r"
    by (rule execute_cong)
       (simp_all add: workflow_context_options.truncate_def addObservers_def addSteps_def
          WorkflowEngine_def)
  show "\<exists>res r' tr j. execute (eng\<lparr>options := (options eng)\<lparr>maxConcurrency := m1\<rparr>\<rparr>) inp r =
        (res, r') \<and>
      calls r' = calls r @ tr \<and> j \<le> length (steps eng) \<and>
      executed tr = map step_name (take j (steps eng)) \<and>
      (res = Normal (ctx (world r')) \<or> (\<exists>x. res = Throw x \<and> conversion_error eng x))"
    using execute_summary [of "eng\<lparr>options := (options eng)\<lparr>maxConcurrency := m1\<rparr>\<rparr>" inp r]
    by (simp add: conversion_error_def)
qed

section \<open>Error attribution under a branch step\<close>

text \<open>Unfolding a run on concrete steps and observers.\<close>

lemmas eval_defs =
  execute_def js_bind_def js_return_def js_try_catch_def lift_world_def lift_js_def
  loop_body_def notifyObservers_def call_step_def call_observer_def console_error_def
  set_currentStepName_def addError_def complete_def WorkflowContext_def context_options_def
  workflow_context_options.truncate_def new_object_def uuidv4_def heap_get_def heap_set_def
  WorkflowEngine_def addStep_def addSteps_def addObserver_def addObservers_def
  BasicStep_def ConditionalStep_def log_line_def

text \<open>
  C4, as the claim states it, fails. The engine records the error under \<^verbatim>\<open>step.name\<close> of
  the step of its own list, which is the branch step: a branch named \<open>branch\<close> that
  delegates to a failing child named \<open>child\<close> leaves one error record, with step \<open>branch\<close>,
  and \<open>currentStepName\<close> is \<open>branch\<close> too.
\<close>

theorem branch_error_counterexample:
  "map step (errors (ctx (world (snd (execute engine_branch (Data JSNull) run0))))) =
     [''branch''] \<and>
   currentStepName (ctx (world (snd (execute engine_branch (Data JSNull) run0)))) =
     Some ''branch''"
  by (simp add: engine_branch_def branch_step_def eval_defs step_throw_def options0_def run0_def
      world0_def)

text \<open>
  C4, amended. In the turn of the loop for a branch step, when the delegated child (the
  true step under a true condition, the false step under a false one) fails with \<open>e\<close>,
  the record appended to \<open>errors\<close> carries the name of the branch step itself, with \<open>e\<close> as
  details (and when \<open>e\<close> has no message the turn throws and appends nothing). In a whole
  run, every error record carries the name of a step of the engine's own list, so a
  child's name appears only if a registered step bears it. (The condition, the child and
  the observers are taken not to write \<open>errors\<close> themselves.)
\<close>

theorem branch_failure_is_attributed_to_the_branch:
  assumes child:
      "(condition (world (before_step eng (ConditionalStep name condition trueStep falseStep) r)) =
          (Normal True, w2) \<and> step_execute trueStep w2 = (Throw e, w3)) \<or>
       (condition (world (before_step eng (ConditionalStep name condition trueStep falseStep) r)) =
          (Normal False, w2) \<and> falseStep = Some f \<and> step_execute f w2 = (Throw e, w3))"
    and kept: "errors (ctx w3) =
          errors (ctx (world (before_step eng (ConditionalStep name condition trueStep falseStep) r)))"
    and kobs: "\<forall>ob\<in>set (observers eng). observer_keeps errors ob"
  shows "(case error_message e of
            Inr msg \<Rightarrow>
              (\<exists>sig r'. loop_body eng (ConditionalStep name condition trueStep falseStep) r =
                 (Normal sig, r') \<and>
               errors (ctx (world r')) = errors (ctx (world r)) @
                 [\<lparr>step = name, message = msg, details = e, timestamp = now w3\<rparr>])
          | Inl x \<Rightarrow>
              (\<exists>r'. loop_body eng (ConditionalStep name condition trueStep falseStep) r =
                 (Throw x, r') \<and>
               errors (ctx (world r')) = errors (ctx (world r)))) \<and>
         (user_code_keeps errors eng \<longrightarrow>
           (\<exists>res r'. execute eng inp r = (res, r') \<and>
              (res = Normal (ctx (world r')) \<or> (\<exists>x. res = Throw x \<and> conversion_error eng x)) \<and>
              step ` set (errors (ctx (world r'))) \<subseteq> step_name ` set (steps eng)))"
proof (intro conjI impI)
  let ?s = "ConditionalStep name condition trueStep falseStep"
  let ?r2 = "before_step eng ?s r"
  have n: "step_name ?s = name" by (simp add: ConditionalStep_def)
  have x: "step_execute ?s (world ?r2) = (Throw e, w3)"
    using child by (auto simp: ConditionalStep_def js_bind_def)
  let ?r3 = "?r2\<lparr>world := w3, calls := calls ?r2 @ [Executed name (Some e)]\<rparr>"
  have c: "call_step ?s ?r2 = (Throw e, ?r3)"
    using x by (simp add: call_step_def n)
  have b: "errors (ctx w3) = errors (ctx (world r))"
    using kept before_step_errors [OF kobs, of ?s r] by simp
  show "case error_message e of
            Inr msg \<Rightarrow>
              (\<exists>sig r'. loop_body eng ?s r = (Normal sig, r') \<and>
               errors (ctx (world r')) = errors (ctx (world r)) @
                 [\<lparr>step = name, message = msg, details = e, timestamp = now w3\<rparr>])
          | Inl x \<Rightarrow>
              (\<exists>r'. loop_body eng ?s r = (Throw x, r') \<and>
               errors (ctx (world r')) = errors (ctx (world r)))"
  proof (cases "error_message e")
    case (Inr msg)
    let ?r4 = "?r3\<lparr>world := snd (addError name e (world ?r3))\<rparr>"
    let ?r' = "snd (notifyObservers (OnStepError name e) (observers eng) ?r4)"
    have l: "loop_body eng ?s r =
             (Normal (if continueOnError (options eng) \<noteq> Some True then Break else Continue), ?r')"
      using loop_body_fail [OF c Inr] by (simp add: n)
    have "errors (ctx (world ?r')) = errors (ctx (world ?r4))"
      using kobs by (rule notifyObservers_keeps)
    also have "\<dots> = errors (ctx w3) @
        [\<lparr>step = name, message = msg, details = e, timestamp = now w3\<rparr>]"
      using Inr by (simp add: addError_def)
    finally have "errors (ctx (world ?r')) = errors (ctx (world r)) @
        [\<lparr>step = name, message = msg, details = e, timestamp = now w3\<rparr>]"
      using b by simp
    then show ?thesis using l Inr by auto
  next
    case (Inl x)
    have "loop_body eng ?s r = (Throw x, ?r3)"
      using c Inl by (rule loop_body_raise)
    then show ?thesis using Inl b by auto
  qed
next
  assume k: "user_code_keeps errors eng"
  obtain res r' where e: "execute eng inp r = (res, r')"
      "res = Normal (ctx (world r')) \<or> (\<exists>x. res = Throw x \<and> conversion_error eng x)"
    using execute_summary [of eng inp r] by blast
  have "step ` set (errors (ctx (world r'))) \<subseteq> step_name ` set (steps eng)"
    using execute_error_steps [OF k, of inp r] e(1) by simp
  then show "\<exists>res r'. execute eng inp r = (res, r') \<and>
              (res = Normal (ctx (world r')) \<or> (\<exists>x. res = Throw x \<and> conversion_error eng x)) \<and>
              step ` set (errors (ctx (world r'))) \<subseteq> step_name ` set (steps eng)"
    using e by blast
qed

theorem branch_failure_is_attributed_to_the_branch_witness:
  "js_return True (world (before_step engine_branch branch_step run0)) =
     (Normal True, set_currentStepName ''branch'' world0) \<and>
   step_execute (step_throw ''child'' (Error ''boom'')) (set_currentStepName ''branch'' world0) =
     (Throw (Error ''boom''), log_line ''run child'' (set_currentStepName ''branch'' world0)) \<and>
   observers engine_branch = [] \<and>
   user_code_keeps errors engine_branch \<and>
   (\<exists>sig r'. loop_body engine_branch branch_step run0 = (Normal sig, r') \<and>
      errors (ctx (world r')) =
        [\<lparr>step = ''branch'', message = ''boom'', details = Error ''boom'', timestamp = 5\<rparr>]) \<and>
   (\<exists>res r'. execute engine_branch (Data JSNull) run0 = (res, r') \<and>
      (res = Normal (ctx (world r')) \<or>
       (\<exists>x. res = Throw x \<and> conversion_error engine_branch x)) \<and>
      step ` set (errors (ctx (world r'))) \<subseteq> {''branch''})"
proof -
  let ?w1 = "set_currentStepName ''branch'' world0"
  let ?w3 = "log_line ''run child'' ?w1"
  have obs: "observers engine_branch = []" and st: "steps engine_branch = [branch_step]"
    by (simp_all add: engine_branch_def addSteps_def WorkflowEngine_def)
  have b: "world (before_step engine_branch branch_step run0) = ?w1"
    by (simp add: before_step_def obs notifyObservers_def branch_step_def ConditionalStep_def
        run0_def)
  have h1: "js_return True (world (before_step engine_branch branch_step run0)) =
              (Normal True, ?w1)"
    by (simp add: b js_return_def)
  have h2: "step_execute (step_throw ''child'' (Error ''boom'')) ?w1 =
              (Throw (Error ''boom''), ?w3)"
    by (simp add: step_throw_def BasicStep_def)
  have h3: "errors (ctx ?w3) = errors (ctx (world (before_step engine_branch branch_step run0)))"
    by (simp add: b log_line_def)
  have h4: "\<forall>ob\<in>set (observers engine_branch). observer_keeps errors ob"
    by (simp add: obs)
  have h5: "user_code_keeps errors engine_branch"
    by (simp add: user_code_keeps_def obs st branch_step_def ConditionalStep_def keeps_def
        step_throw_def BasicStep_def js_bind_def js_return_def log_line_def)
  have n: "step_name branch_step = ''branch''"
    by (simp add: branch_step_def ConditionalStep_def)
  note t = branch_failure_is_attributed_to_the_branch
      [of "js_return True" engine_branch "''branch''" "step_throw ''child'' (Error ''boom'')"
          None run0 ?w1 "Error ''boom''" ?w3 undefined "Data JSNull",
       folded branch_step_def, OF disjI1 [OF conjI [OF h1 h2]] h3 h4]
  show ?thesis
    using h1 h2 h4 h5 t obs
    by (simp add: st n set_currentStepName_def world0_def run0_def ctx0_def log_line_def)
qed

section \<open>Step failures in a run\<close>



lemma loop_body_raised:
  assumes "step_execute s (step_start_world eng s (world r)) = (Throw e, w')"
    and "error_message e = Inl x"
  obtains r' where "loop_body eng s r = (Throw x, r')"
    and "world r' = w'"
    and "calls r' = calls r @ notified 0 (OnStepStart (step_name s)) (observers eng) @
           [Executed (step_name s) (Some e)]"
proof (cases rule: loop_body_cases [of s eng r])
  case (resolved w2 r')
  then show ?thesis using assms by simp
next
  case (rejected e2 msg w2 r')
  have "e2 = e" using rejected(1) assms by simp
  then show ?thesis using rejected(2) assms(2) by simp
next
  case (raised e2 x2 w2 r')
  have "e2 = e \<and> w2 = w'" using raised(1) assms by simp
  moreover have "x2 = x" using raised(2) assms(2) calculation by simp
  ultimately show ?thesis using raised that by simp
qed

text \<open>The fields of the engine of the three-step scenario, and the worlds of a run unfolded.\<close>

lemma engine_abc_fields [simp]:
  "steps (engine_abc coe v) = [step_ok ''A'', step_throw ''B'' v, step_ok ''C'']"
  "observers (engine_abc coe v) = [logging_observer, throwing_observer]"
  "continueOnError (options (engine_abc coe v)) =
     Some (case coe of None \<Rightarrow> False | Some b \<Rightarrow> b)"
  "workflowId_opt (options (engine_abc coe v)) = None"
  "workflowName_opt (options (engine_abc coe v)) = ''test-workflow''"
  "result_opt (options (engine_abc coe v)) = Data JSUndefined"
  "metadata_opt (options (engine_abc coe v)) = None"
  by (simp_all add: engine_abc_def addObservers_def addSteps_def WorkflowEngine_def options0_def)

lemma fixture_names [simp]:
  "step_name (step_ok n) = n" "step_name (step_throw n v) = n"
  by (simp_all add: step_ok_def step_throw_def BasicStep_def)

lemma fixture_steps [simp]:
  "step_execute (step_ok n) w = (Normal (), log_line (''run '' @ n) w)"
  "step_execute (step_throw n v) w = (Throw v, log_line (''run '' @ n) w)"
  by (simp_all add: step_ok_def step_throw_def BasicStep_def)






section \<open>Three steps of which the second fails\<close>







section \<open>Successive runs of one engine\<close>

text \<open>
  C6, as the claim states it, fails when the engine is configured with a metadata object:
  the constructor stores that object itself (\<^verbatim>\<open>options.metadata ?? {}\<close>), so all runs share
  it, and likewise the configured result (\<^verbatim>\<open>this.result = options.result\<close>). The metadata
  object (the record at address 0) has no property \<open>seen\<close> before the first run; after a
  first run whose step sets \<^verbatim>\<open>metadata.seen\<close> and \<^verbatim>\<open>result.count\<close>, the context built for
  the second run has that same object as its metadata and sees \<open>seen\<close> at its
  construction, and its result is the object in which \<open>count\<close> is 1.
\<close>

theorem shared_metadata_counterexample:
  "map_option (\<lambda>md. md ''seen'') (heap_get (world run0) 0) = Some None \<and>
   metadata (ctx second_context) = 0 \<and>
   map_option (\<lambda>md. md ''seen'') (heap_get second_context (metadata (ctx second_context))) =
     Some (Some (Data (JSBool True))) \<and>
   result (ctx second_context) = Ref 1 \<and>
   map_option (\<lambda>res. res ''count'') (heap_get second_context 1) = Some (Some (Number 1))"
  by (simp add: second_context_def first_run_def engine_meta_def mark_step_def set_property_def
      eval_defs options0_def run0_def world0_def)

lemma WorkflowContext_fields:
  "currentStepName (ctx (WorkflowContext opts w)) = None"
  "endTime (ctx (WorkflowContext opts w)) = None"
  "input (ctx (WorkflowContext opts w)) = input_opt opts"
  "result (ctx (WorkflowContext opts w)) = result_opt opts"
  by (simp_all add: WorkflowContext_def Let_def split: prod.splits)

lemma WorkflowContext_heap:
  "take (length (heap w)) (heap (WorkflowContext opts w)) = heap w"
  by (simp add: WorkflowContext_def Let_def new_object_def uuidv4_def
      split: prod.splits option.splits)

lemma WorkflowContext_metadata:
  "case metadata_opt opts of
     Some a \<Rightarrow> metadata (ctx (WorkflowContext opts w)) = a
   | None \<Rightarrow> length (heap w) \<le> metadata (ctx (WorkflowContext opts w)) \<and>
       heap_get (WorkflowContext opts w) (metadata (ctx (WorkflowContext opts w))) =
         Some Map.empty"
  by (simp add: WorkflowContext_def Let_def new_object_def uuidv4_def heap_get_def nth_append
      split: prod.splits option.splits)

text \<open>
  C6, amended. After any first run, the context that a second \<open>execute\<close> builds is a new
  one: it has no errors, no current step and no end time, and its input is that of the
  second call. Its result is the configured result itself and, when the engine is
  configured with a metadata object, its metadata is that object itself: what the engine
  was configured with is shared by all its runs, by reference. The construction leaves
  every object that existed when the first run ended as the first run left it, so the
  second context sees the first run's writes to them. Only when no metadata object is
  configured is the metadata of the second context a new empty object, one that did not
  exist during the first run.
\<close>

theorem second_run_context:
  "errors (ctx (WorkflowContext (context_options eng inp2) (world_after_run eng inp1 r))) = [] \<and>
   currentStepName
     (ctx (WorkflowContext (context_options eng inp2) (world_after_run eng inp1 r))) = None \<and>
   endTime (ctx (WorkflowContext (context_options eng inp2) (world_after_run eng inp1 r))) =
     None \<and>
   input (ctx (WorkflowContext (context_options eng inp2) (world_after_run eng inp1 r))) =
     inp2 \<and>
   result (ctx (WorkflowContext (context_options eng inp2) (world_after_run eng inp1 r))) =
     result_opt (options eng) \<and>
   take (length (heap (world_after_run eng inp1 r)))
     (heap (WorkflowContext (context_options eng inp2) (world_after_run eng inp1 r))) =
     heap (world_after_run eng inp1 r) \<and>
   (case metadata_opt (options eng) of
      Some a \<Rightarrow>
        metadata (ctx (WorkflowContext (context_options eng inp2) (world_after_run eng inp1 r))) =
          a
    | None \<Rightarrow>
        length (heap (world_after_run eng inp1 r)) \<le>
          metadata
            (ctx (WorkflowContext (context_options eng inp2) (world_after_run eng inp1 r))) \<and>
        heap_get (WorkflowContext (context_options eng inp2) (world_after_run eng inp1 r))
          (metadata
             (ctx (WorkflowContext (context_options eng inp2) (world_after_run eng inp1 r)))) =
          Some Map.empty)"
proof -
  have m: "metadata_opt (context_options eng inp2) = metadata_opt (options eng)"
    and i: "input_opt (context_options eng inp2) = inp2"
    and o: "result_opt (context_options eng inp2) = result_opt (options eng)"
    by (simp_all add: context_options_def workflow_context_options.truncate_def)
  show ?thesis
    using WorkflowContext_metadata
      [where opts = "context_options eng inp2" and w = "world_after_run eng inp1 r"]
    by (simp add: WorkflowContext_fields WorkflowContext_heap m i o)
qed

end
